theory Spec2Isabelle
  imports Complex_Main
begin

section \<open>JavaScript strings\<close>

text \<open>
  A JavaScript string is modelled as a \<^typ>\<open>string\<close>, one \<^typ>\<open>char\<close> per UTF-16 code
  unit, restricted to the code units U+0000 to U+00FF. On such strings iterating with
  \<^verbatim>\<open>for (let symbol of input)\<close> (by code point) and with \<^verbatim>\<open>input[i]\<close> (by code unit)
  visit the same one-character strings, so both loops are recursions over the list.
\<close>

text \<open>The white space and line terminators that \<^verbatim>\<open>String.prototype.trim\<close> strips, among
  the characters modelled: TAB, LF, VT, FF, CR, SPACE and NBSP.\<close>

definition isWhiteSpace :: "char \<Rightarrow> bool" where
  "isWhiteSpace c \<longleftrightarrow>
     c \<in> set [CHR 0x09, CHR 0x0A, CHR 0x0B, CHR 0x0C, CHR 0x0D, CHR 0x20, CHR 0xA0]"

text \<open>\<^verbatim>\<open>s.trim()\<close>\<close>

definition trim :: "string \<Rightarrow> string" where
  "trim s = rev (dropWhile isWhiteSpace (rev (dropWhile isWhiteSpace s)))"

text \<open>\<^verbatim>\<open>s.split(d)\<close> for a one-character separator: never empty, \<^verbatim>\<open>''.split(',')\<close> is
  \<^verbatim>\<open>['']\<close>.\<close>

fun split_js :: "char \<Rightarrow> string \<Rightarrow> string list" where
  "split_js d [] = [[]]"
| "split_js d (c # cs) =
     (if c = d then [] # split_js d cs
      else (case split_js d cs of [] \<Rightarrow> [[c]] | w # ws \<Rightarrow> (c # w) # ws))"

text \<open>\<^verbatim>\<open>xs.join(sep)\<close>\<close>

fun join_js :: "string \<Rightarrow> string list \<Rightarrow> string" where
  "join_js sep [] = []"
| "join_js sep [w] = w"
| "join_js sep (w # v # ws) = w @ sep @ join_js sep (v # ws)"

section \<open>The data model\<close>

text \<open>
  The objects of \<^verbatim>\<open>addState\<close> and \<^verbatim>\<open>createNewTransition\<close>. Field names follow the source;
  \<^verbatim>\<open>id\<close>, \<^verbatim>\<open>from\<close>, \<^verbatim>\<open>to\<close>, \<^verbatim>\<open>x\<close> and \<^verbatim>\<open>y\<close> are renamed because the plain names are taken.
  A property that the source leaves undefined is \<^const>\<open>None\<close>.

  Transitions hold their end states by value. The operations modelled here only read the
  fields of a state object (they compare \<^verbatim>\<open>from.id\<close>, \<^verbatim>\<open>to.id\<close> and read \<^verbatim>\<open>isFinal\<close> and
  \<^verbatim>\<open>label\<close>) and never write to one, so sharing of state objects is not observable in them.
  The transition id, \<^verbatim>\<open>Date.now() + Math.random()\<close> in the source, is an opaque token that
  the environment supplies. Angles are counted in units of \<open>\<pi>\<close>, so that \<^verbatim>\<open>-Math.PI/2\<close> is
  \<open>- 1 / 2\<close>.
\<close>

record state =
  state_id :: nat
  pos_x :: real
  pos_y :: real
  isFinal :: bool
  label :: string

record transition =
  transition_id :: nat
  from_state :: state
  to_state :: state
  symbol :: string
  offset :: "int option"
  offsetDirection :: "int option"
  labelOffset :: "real option"
  selfLoopAngle :: "real option"

text \<open>One entry of \<^verbatim>\<open>debugSteps\<close>.\<close>

record debugStep =
  step :: nat
  state :: state
  char :: "char option"
  transition :: "transition option"
  remaining :: string
  message :: string
  rejected :: "bool option"
  final :: "bool option"
  accepted :: "bool option"

text \<open>\<^verbatim>\<open>pendingTransitionData\<close>: \<^verbatim>\<open>{ from, to }\<close> from \<^verbatim>\<open>addTransition\<close>, with
  \<^verbatim>\<open>editingTransition\<close> from \<^verbatim>\<open>editTransitionSymbol\<close>. The edited transition is an element of
  \<^verbatim>\<open>this.transitions\<close>; the reference is its position in that array.\<close>

record pending =
  pending_from :: state
  pending_to :: state
  editingTransition :: "nat option"

text \<open>The fields of the simulator object that the modelled operations read or write.\<close>

record simulator =
  states :: "state list"
  transitions :: "transition list"
  selectedState :: "state option"
  selectedTransition :: "transition option"
  startState :: "state option"
  stateCounter :: nat
  debugMode :: bool
  debugString :: string
  debugSteps :: "debugStep list"
  currentDebugStep :: int
  pendingTransitionData :: "pending option"

text \<open>Truthiness of an optional flag: \<^verbatim>\<open>undefined\<close> is falsy.\<close>

definition truthy :: "bool option \<Rightarrow> bool" where
  "truthy b = (case b of None \<Rightarrow> False | Some v \<Rightarrow> v)"

text \<open>
  What an operation reports. The source has no error classes: it shows a message with
  \<^verbatim>\<open>alert\<close> and returns, or throws an \<^verbatim>\<open>Error\<close> with a message. Each constructor stands
  for one message:
  \<^item> \<open>EmptyInput\<close>: "Please enter at least one transition symbol!"
  \<^item> \<open>NoValidSymbols\<close>: "Please enter valid symbols!"
  \<^item> \<open>InvalidSymbol\<close>: "Each symbol must be exactly one character!"
  \<^item> \<open>DeterminismViolation l c\<close>: "DFA rule violation: State 'l' already has a transition
    for symbol 'c'!"
  \<^item> \<open>DuplicateSymbol\<close>: "All symbols already exist for this transition!"
  \<^item> \<open>NoStartState\<close>: "No start state defined!"
  \<^item> \<open>TypeError\<close>: the exception of the runtime for a property read on \<^verbatim>\<open>undefined\<close> or
    \<^verbatim>\<open>null\<close>.
  An operation returns the signal it gave, if any, and the simulator as it is at that point.
\<close>

datatype error =
    EmptyInput
  | NoValidSymbols
  | InvalidSymbol
  | DeterminismViolation string string
  | DuplicateSymbol
  | NoStartState
  | TypeError

datatype signal = Alert error | Throw error

section \<open>Simulation\<close>

text \<open>\<^verbatim>\<open>t.symbol.split(',').map(s => s.trim())\<close>\<close>

definition symbols_of :: "transition \<Rightarrow> string list" where
  "symbols_of t = map trim (split_js (CHR '','') (symbol t))"

text \<open>The predicate of the \<^verbatim>\<open>find\<close> in \<^verbatim>\<open>simulateInput\<close>, \<^verbatim>\<open>startStepDebug\<close> and
  \<^verbatim>\<open>validateTransition\<close>: the transition leaves the state with this id and its symbol list
  includes the string.\<close>

definition carries :: "nat \<Rightarrow> string \<Rightarrow> transition \<Rightarrow> bool" where
  "carries i symb t \<longleftrightarrow> state_id (from_state t) = i \<and> symb \<in> set (symbols_of t)"

text \<open>The loop of \<^verbatim>\<open>simulateInput\<close>, from \<^verbatim>\<open>currentState\<close> over the rest of the input.\<close>

fun simulateLoop :: "transition list \<Rightarrow> state \<Rightarrow> string \<Rightarrow> bool" where
  "simulateLoop ts currentState [] = isFinal currentState"
| "simulateLoop ts currentState (c # cs) =
     (case find (carries (state_id currentState) [c]) ts of
        None \<Rightarrow> False
      | Some t \<Rightarrow> simulateLoop ts (to_state t) cs)"

text \<open>\<^verbatim>\<open>DFASimulator.simulateInput\<close> of dfaSimulator.js.\<close>

definition simulateInput :: "simulator \<Rightarrow> string \<Rightarrow> bool" where
  "simulateInput sim input =
     (case startState sim of
        None \<Rightarrow> False
      | Some s \<Rightarrow> simulateLoop (transitions sim) s input)"

text \<open>\<^verbatim>\<open>DFASimulator.simulateInput\<close> of main.js: the same walk, with an alert when there is no
  start state. The result is the alert shown, if any, and the value returned.\<close>

definition simulateInput_main :: "simulator \<Rightarrow> string \<Rightarrow> signal option \<times> bool" where
  "simulateInput_main sim input =
     (case startState sim of
        None \<Rightarrow> (Some (Alert NoStartState), False)
      | Some s \<Rightarrow> (None, simulateLoop (transitions sim) s input))"

text \<open>
  The engine as the specification words it: \<open>lookup\<close> is the single-symbol lookup, a
  transition from the state whose comma-separated symbol set contains the character, and
  \<open>walk\<close> follows it from a state for each character of the input, stopping with
  \<^const>\<open>None\<close> when a lookup finds nothing.
\<close>

definition lookup :: "transition list \<Rightarrow> state \<Rightarrow> char \<Rightarrow> transition option" where
  "lookup ts s c =
     find (\<lambda>t. state_id (from_state t) = state_id s
              \<and> [c] \<in> set (map trim (split_js (CHR '','') (symbol t)))) ts"

fun walk :: "transition list \<Rightarrow> state \<Rightarrow> string \<Rightarrow> state option" where
  "walk ts current [] = Some current"
| "walk ts current (c # cs) =
     (case lookup ts current c of
        None \<Rightarrow> None
      | Some t \<Rightarrow> walk ts (to_state t) cs)"

section \<open>Step debugging\<close>

text \<open>
  The \<^verbatim>\<open>for\<close> loop of \<^verbatim>\<open>startStepDebug\<close> at index \<open>i\<close>, where the second string is
  \<^verbatim>\<open>input.substring(i)\<close>: it returns the steps pushed from there on and the value of
  \<^verbatim>\<open>currentState\<close> when the loop ends. The apostrophe is \<open>CHR 0x27\<close>.
\<close>

fun debugLoop :: "transition list \<Rightarrow> nat \<Rightarrow> state \<Rightarrow> string \<Rightarrow> debugStep list \<times> state" where
  "debugLoop ts i currentState [] = ([], currentState)"
| "debugLoop ts i currentState (c # cs) =
     (case find (carries (state_id currentState) [c]) ts of
        None \<Rightarrow>
          ([\<lparr>step = i + 1, state = currentState, char = Some c, transition = None,
             remaining = c # cs,
             message = ''No transition for '' @ [CHR 0x27, c, CHR 0x27] @ '' from ''
                       @ label currentState @ ''. REJECTED.'',
             rejected = Some True, final = None, accepted = None\<rparr>],
           currentState)
      | Some t \<Rightarrow>
          (case debugLoop ts (i + 1) (to_state t) cs of
             (more_steps, lastState) \<Rightarrow>
               (\<lparr>step = i + 1, state = to_state t, char = Some c, transition = Some t,
                 remaining = cs,
                 message = ''Read '' @ [CHR 0x27, c, CHR 0x27] @ '', transition from ''
                           @ label currentState @ '' to '' @ label (to_state t),
                 rejected = None, final = None, accepted = None\<rparr> # more_steps,
                lastState)))"

text \<open>The block "Generate debug steps" of \<^verbatim>\<open>startStepDebug\<close> with its "Final step": the
  value of \<^verbatim>\<open>this.debugSteps\<close> it builds from the start state and the input.\<close>

definition buildDebugSteps :: "transition list \<Rightarrow> state \<Rightarrow> string \<Rightarrow> debugStep list" where
  "buildDebugSteps ts start input =
     (case debugLoop ts 0 start input of
        (more_steps, currentState) \<Rightarrow>
          (let steps =
                 \<lparr>step = 0, state = start, char = None, transition = None,
                  remaining = input, message = ''Starting at state '' @ label start,
                  rejected = None, final = None, accepted = None\<rparr> # more_steps;
               finalAccepted = isFinal currentState
           in if \<not> truthy (rejected (last steps))
              then steps @
                   [\<lparr>step = length input + 1, state = currentState, char = None,
                     transition = None, remaining = [],
                     message = ''String consumed. '' @ label currentState @ '' is ''
                               @ (if finalAccepted then [] else ''not '')
                               @ ''a final state. ''
                               @ (if finalAccepted then ''ACCEPTED'' else ''REJECTED'')
                               @ ''.'',
                     rejected = None, final = Some True,
                     accepted = Some finalAccepted\<rparr>]
              else steps))"

text \<open>\<^verbatim>\<open>updateDebugDisplay\<close> reads \<^verbatim>\<open>this.debugSteps[this.currentDebugStep]\<close> and then the
  fields of that step: outside the array the step is \<^verbatim>\<open>undefined\<close> and the read throws.
  The rest of it writes to the page.\<close>

definition updateDebugDisplay :: "simulator \<Rightarrow> signal option \<times> simulator" where
  "updateDebugDisplay sim =
     (if 0 \<le> currentDebugStep sim \<and> currentDebugStep sim < int (length (debugSteps sim))
      then (None, sim)
      else (Some (Throw TypeError), sim))"

text \<open>\<^verbatim>\<open>startStepDebug\<close>, the same in main.js and dfaSimulator.js; the argument is the value
  of the text field \<^verbatim>\<open>testInput\<close>.\<close>

definition startStepDebug :: "string \<Rightarrow> simulator \<Rightarrow> signal option \<times> simulator" where
  "startStepDebug testInput sim =
     (let input = trim testInput in
      case startState sim of
        None \<Rightarrow> (Some (Alert NoStartState), sim)
      | Some s \<Rightarrow>
          updateDebugDisplay
            (sim\<lparr>debugMode := True, debugString := input,
                 debugSteps := buildDebugSteps (transitions sim) s input,
                 currentDebugStep := 0\<rparr>))"

definition stepNext :: "simulator \<Rightarrow> signal option \<times> simulator" where
  "stepNext sim =
     (if currentDebugStep sim < int (length (debugSteps sim)) - 1
      then updateDebugDisplay (sim\<lparr>currentDebugStep := currentDebugStep sim + 1\<rparr>)
      else (None, sim))"

definition stepPrev :: "simulator \<Rightarrow> signal option \<times> simulator" where
  "stepPrev sim =
     (if currentDebugStep sim > 0
      then updateDebugDisplay (sim\<lparr>currentDebugStep := currentDebugStep sim - 1\<rparr>)
      else (None, sim))"

text \<open>A sequence of presses of the two buttons, stopping at the first exception.\<close>

datatype debugButton = Next | Prev

fun pressButtons :: "debugButton list \<Rightarrow> simulator \<Rightarrow> signal option \<times> simulator" where
  "pressButtons [] sim = (None, sim)"
| "pressButtons (b # bs) sim =
     (case (case b of Next \<Rightarrow> stepNext sim | Prev \<Rightarrow> stepPrev sim) of
        (None, sim') \<Rightarrow> pressButtons bs sim'
      | (Some e, sim') \<Rightarrow> (Some e, sim'))"

text \<open>
  The run of \<^verbatim>\<open>simulateInput\<close> with what it visits written down: the successive values of
  \<^verbatim>\<open>currentState\<close>, each with the transition that the \<^verbatim>\<open>find\<close> returned to reach it (none
  for the start state).
\<close>

fun visitLoop :: "transition list \<Rightarrow> state \<Rightarrow> string \<Rightarrow> (state \<times> transition option) list" where
  "visitLoop ts currentState [] = []"
| "visitLoop ts currentState (c # cs) =
     (case find (carries (state_id currentState) [c]) ts of
        None \<Rightarrow> []
      | Some t \<Rightarrow> (to_state t, Some t) # visitLoop ts (to_state t) cs)"

text \<open>What a step of the trace records of the walk: its state and its transition.\<close>

definition visit_of :: "debugStep \<Rightarrow> state \<times> transition option" where
  "visit_of d = (state d, transition d)"

definition visited :: "simulator \<Rightarrow> string \<Rightarrow> (state \<times> transition option) list" where
  "visited sim input =
     (case startState sim of
        None \<Rightarrow> []
      | Some s \<Rightarrow> (s, None) # visitLoop (transitions sim) s input)"

section \<open>Adding and merging transitions\<close>

text \<open>\<^verbatim>\<open>Array.prototype.find\<close> returns the first matching object, which the source then
  writes to; \<open>findIndex\<close> is the position of that object in the array.\<close>

fun findIndex :: "('a \<Rightarrow> bool) \<Rightarrow> 'a list \<Rightarrow> nat option" where
  "findIndex P [] = None"
| "findIndex P (v # vs) = (if P v then Some 0 else map_option Suc (findIndex P vs))"

text \<open>\<^verbatim>\<open>addTransition(from, to)\<close> opens the dialog for a new transition.\<close>

definition addTransition :: "state \<Rightarrow> state \<Rightarrow> simulator \<Rightarrow> simulator" where
  "addTransition fromState toState sim =
     sim\<lparr>pendingTransitionData :=
           Some \<lparr>pending_from = fromState, pending_to = toState, editingTransition = None\<rparr>\<rparr>"

text \<open>\<^verbatim>\<open>input.split(',').map(s => s.trim()).filter(s => s.length > 0)\<close>\<close>

definition parseSymbols :: "string \<Rightarrow> string list" where
  "parseSymbols input = filter (\<lambda>s. length s > 0) (map trim (split_js (CHR '','') input))"

text \<open>The DFA rule, the second loop of \<^verbatim>\<open>validateTransition\<close> and the loop of main.js under
  "Enforce DFA rule": the first of the symbols for which some transition from the state
  already carries it.\<close>

definition firstDuplicate :: "transition list \<Rightarrow> state \<Rightarrow> string list \<Rightarrow> string option" where
  "firstDuplicate ts fromState symbols =
     find (\<lambda>symb. find (carries (state_id fromState) symb) ts \<noteq> None) symbols"

text \<open>\<^verbatim>\<open>DFASimulator.validateTransition\<close> of dfaSimulator.js.\<close>

definition validateTransition :: "simulator \<Rightarrow> state \<Rightarrow> state \<Rightarrow> string list \<Rightarrow> error + bool" where
  "validateTransition sim fromState toState symbols =
     (case find (\<lambda>symb. length symb \<noteq> 1) symbols of
        Some symb \<Rightarrow> Inl InvalidSymbol
      | None \<Rightarrow>
          (case firstDuplicate (transitions sim) fromState symbols of
             Some symb \<Rightarrow> Inl (DeterminismViolation (label fromState) symb)
           | None \<Rightarrow> Inr True))"

text \<open>The branch "Add symbols to existing transition, avoiding duplicates", on the
  transition at position \<open>i\<close>.\<close>

definition mergeSymbols :: "nat \<Rightarrow> string list \<Rightarrow> simulator \<Rightarrow> error option \<times> simulator" where
  "mergeSymbols i symbols sim =
     (let existingTransition = transitions sim ! i;
          existingSymbols = symbols_of existingTransition;
          newSymbols = filter (\<lambda>s. s \<notin> set existingSymbols) symbols
      in if length newSymbols > 0
         then (None,
               sim\<lparr>transitions := (transitions sim)
                      [i := existingTransition
                              \<lparr>symbol := join_js '', '' (existingSymbols @ newSymbols)\<rparr>]\<rparr>)
         else (Some DuplicateSymbol, sim))"

text \<open>The branch "Create new transition" with its positioning properties; \<open>fresh\<close> is the
  new id.\<close>

definition pushTransition :: "nat \<Rightarrow> state \<Rightarrow> state \<Rightarrow> string list \<Rightarrow> simulator \<Rightarrow> simulator" where
  "pushTransition fresh fromState toState symbols sim =
     (let ts = transitions sim;
          t = \<lparr>transition_id = fresh, from_state = fromState, to_state = toState,
               symbol = join_js '', '' symbols, offset = None, offsetDirection = None,
               labelOffset = None, selfLoopAngle = None\<rparr>
      in if state_id fromState = state_id toState
         then sim\<lparr>transitions := ts @ [t\<lparr>selfLoopAngle := Some (- 1 / 2)\<rparr>]\<rparr>
         else (case findIndex (\<lambda>r. state_id (from_state r) = state_id toState
                                   \<and> state_id (to_state r) = state_id fromState) ts of
                 Some j \<Rightarrow>
                   sim\<lparr>transitions :=
                         ts[j := (ts ! j)\<lparr>offset := Some 10, offsetDirection := Some (- 1)\<rparr>]
                         @ [t\<lparr>offset := Some (- 10), offsetDirection := Some 1\<rparr>]\<rparr>
               | None \<Rightarrow> sim\<lparr>transitions := ts @ [t\<lparr>labelOffset := Some (1 / 2)\<rparr>]\<rparr>))"

text \<open>\<^verbatim>\<open>BaseAutomaton.createNewTransition\<close>\<close>

definition createNewTransition ::
  "nat \<Rightarrow> state \<Rightarrow> state \<Rightarrow> string list \<Rightarrow> simulator \<Rightarrow> error option \<times> simulator" where
  "createNewTransition fresh fromState toState symbols sim =
     (case findIndex (\<lambda>t. state_id (from_state t) = state_id fromState
                          \<and> state_id (to_state t) = state_id toState) (transitions sim) of
        Some i \<Rightarrow> mergeSymbols i symbols sim
      | None \<Rightarrow> (None, pushTransition fresh fromState toState symbols sim))"

text \<open>"Editing existing transition": the symbols of the transition at position \<open>i\<close> are
  replaced.\<close>

definition replaceSymbols :: "nat \<Rightarrow> string list \<Rightarrow> simulator \<Rightarrow> simulator" where
  "replaceSymbols i symbols sim =
     sim\<lparr>transitions := (transitions sim)
            [i := (transitions sim ! i)\<lparr>symbol := join_js '', '' symbols\<rparr>]\<rparr>"

text \<open>
  \<^verbatim>\<open>BaseAutomaton.confirmTransition\<close> with the \<^verbatim>\<open>validateTransition\<close> of the DFA subclass. The
  first argument is the value of the text field \<^verbatim>\<open>transitionInput\<close>. What
  \<^verbatim>\<open>validateTransition\<close> throws is caught and shown; what \<^verbatim>\<open>createNewTransition\<close> throws is
  not caught.
\<close>

definition confirmTransition :: "string \<Rightarrow> nat \<Rightarrow> simulator \<Rightarrow> signal option \<times> simulator" where
  "confirmTransition transitionInput fresh sim =
     (let input = trim transitionInput in
      if input = [] then (Some (Alert EmptyInput), sim)
      else let symbols = parseSymbols input in
      if length symbols = 0 then (Some (Alert NoValidSymbols), sim)
      else (case pendingTransitionData sim of
              None \<Rightarrow> (Some (Throw TypeError), sim)
            | Some p \<Rightarrow>
                (case validateTransition sim (pending_from p) (pending_to p) symbols of
                   Inl e \<Rightarrow> (Some (Alert e), sim)
                 | Inr ok \<Rightarrow>
                     (case editingTransition p of
                        Some i \<Rightarrow> (None, replaceSymbols i symbols sim)
                      | None \<Rightarrow>
                          (case createNewTransition fresh (pending_from p) (pending_to p)
                                  symbols sim of
                             (Some e, sim') \<Rightarrow> (Some (Throw e), sim')
                           | (None, sim') \<Rightarrow> (None, sim'))))))"

text \<open>\<^verbatim>\<open>DFASimulator.confirmTransition\<close> of main.js, which does all of it in one method and
  reports with \<^verbatim>\<open>alert\<close> only.\<close>

definition confirmTransition_main :: "string \<Rightarrow> nat \<Rightarrow> simulator \<Rightarrow> signal option \<times> simulator" where
  "confirmTransition_main transitionInput fresh sim =
     (let input = trim transitionInput in
      if input = [] then (Some (Alert EmptyInput), sim)
      else let symbols = parseSymbols input in
      if length symbols = 0 then (Some (Alert NoValidSymbols), sim)
      else if find (\<lambda>symb. length symb \<noteq> 1) symbols \<noteq> None
      then (Some (Alert InvalidSymbol), sim)
      else (case pendingTransitionData sim of
              None \<Rightarrow> (Some (Throw TypeError), sim)
            | Some p \<Rightarrow>
                (case editingTransition p of
                   Some i \<Rightarrow> (None, replaceSymbols i symbols sim)
                 | None \<Rightarrow>
                     (case findIndex (\<lambda>t. state_id (from_state t) = state_id (pending_from p)
                                          \<and> state_id (to_state t) = state_id (pending_to p))
                             (transitions sim) of
                        Some i \<Rightarrow>
                          (case mergeSymbols i symbols sim of
                             (Some e, sim') \<Rightarrow> (Some (Alert e), sim')
                           | (None, sim') \<Rightarrow> (None, sim'))
                      | None \<Rightarrow>
                          (case firstDuplicate (transitions sim) (pending_from p) symbols of
                             Some symb \<Rightarrow>
                               (Some (Alert (DeterminismViolation (label (pending_from p)) symb)),
                                sim)
                           | None \<Rightarrow>
                               (None,
                                pushTransition fresh (pending_from p) (pending_to p)
                                  symbols sim))))))"

text \<open>
  A sequence of uses of the transition dialog, each \<^verbatim>\<open>addTransition(from, to)\<close> followed by
  \<^verbatim>\<open>confirmTransition\<close> with the text typed and the id drawn for a new transition. A call
  that reports a failure leaves the simulator to the next call as it returns it. The first
  function runs the method of baseAutomaton.js, the second that of main.js.
\<close>

fun addOrMergeAll :: "(state \<times> state \<times> string \<times> nat) list \<Rightarrow> simulator \<Rightarrow> simulator" where
  "addOrMergeAll [] sim = sim"
| "addOrMergeAll ((fromState, toState, transitionInput, fresh) # calls) sim =
     addOrMergeAll calls
       (snd (confirmTransition transitionInput fresh (addTransition fromState toState sim)))"

fun addOrMergeAll_main ::
  "(state \<times> state \<times> string \<times> nat) list \<Rightarrow> simulator \<Rightarrow> simulator" where
  "addOrMergeAll_main [] sim = sim"
| "addOrMergeAll_main ((fromState, toState, transitionInput, fresh) # calls) sim =
     addOrMergeAll_main calls
       (snd (confirmTransition_main transitionInput fresh
               (addTransition fromState toState sim)))"

text \<open>The determinism invariant as the specification states it: for every state id and
  symbol, at most one transition from that state carries the symbol.\<close>

definition deterministic :: "transition list \<Rightarrow> bool" where
  "deterministic ts \<longleftrightarrow> (\<forall>i symb. length (filter (carries i symb) ts) \<le> 1)"

section \<open>Deleting\<close>

text \<open>\<^verbatim>\<open>BaseAutomaton.deleteState\<close>\<close>

definition deleteState :: "state \<Rightarrow> simulator \<Rightarrow> simulator" where
  "deleteState s sim =
     sim\<lparr>states := filter (\<lambda>s'. state_id s' \<noteq> state_id s) (states sim),
         transitions := filter (\<lambda>t. state_id (from_state t) \<noteq> state_id s
                                    \<and> state_id (to_state t) \<noteq> state_id s) (transitions sim),
         startState := (case startState sim of
                          None \<Rightarrow> None
                        | Some st \<Rightarrow> if state_id st = state_id s then None else Some st),
         selectedState := None\<rparr>"

text \<open>\<^verbatim>\<open>BaseAutomaton.deleteTransition\<close>; \<^verbatim>\<open>t.offset\<close> is truthy when it is defined and not 0.\<close>

definition deleteTransition :: "transition \<Rightarrow> simulator \<Rightarrow> simulator" where
  "deleteTransition tr sim =
     (let ts = transitions sim;
          ts' = (case findIndex (\<lambda>t. state_id (from_state t) = state_id (to_state tr)
                                     \<and> state_id (to_state t) = state_id (from_state tr)
                                     \<and> offset t \<noteq> None \<and> offset t \<noteq> Some 0) ts of
                   Some j \<Rightarrow> ts[j := (ts ! j)\<lparr>offset := Some 0, offsetDirection := Some 0,
                                             labelOffset := Some (1 / 2)\<rparr>]
                 | None \<Rightarrow> ts)
      in sim\<lparr>transitions := filter (\<lambda>t. transition_id t \<noteq> transition_id tr) ts',
             selectedTransition := None\<rparr>)"

text \<open>\<^verbatim>\<open>BaseAutomaton.confirmDelete\<close>\<close>

definition confirmDelete :: "simulator \<Rightarrow> simulator" where
  "confirmDelete sim =
     (case selectedTransition sim of
        Some tr \<Rightarrow> deleteTransition tr sim
      | None \<Rightarrow> (case selectedState sim of
                   Some s \<Rightarrow> deleteState s sim
                 | None \<Rightarrow> sim))"

text \<open>\<^verbatim>\<open>DFASimulator.confirmDelete\<close> of main.js, with both deletions written out in it.\<close>

definition confirmDelete_main :: "simulator \<Rightarrow> simulator" where
  "confirmDelete_main sim =
     (case selectedTransition sim of
        Some tr \<Rightarrow>
          (let ts = transitions sim;
               ts' = (case findIndex (\<lambda>t. state_id (from_state t) = state_id (to_state tr)
                                          \<and> state_id (to_state t) = state_id (from_state tr)
                                          \<and> offset t \<noteq> None \<and> offset t \<noteq> Some 0) ts of
                        Some j \<Rightarrow> ts[j := (ts ! j)\<lparr>offset := Some 0, offsetDirection := Some 0,
                                                  labelOffset := Some (1 / 2)\<rparr>]
                      | None \<Rightarrow> ts)
           in sim\<lparr>transitions := filter (\<lambda>t. transition_id t \<noteq> transition_id tr) ts',
                  selectedTransition := None\<rparr>)
      | None \<Rightarrow>
          (case selectedState sim of
             Some s \<Rightarrow>
               sim\<lparr>states := filter (\<lambda>s'. state_id s' \<noteq> state_id s) (states sim),
                   transitions := filter (\<lambda>t. state_id (from_state t) \<noteq> state_id s
                                              \<and> state_id (to_state t) \<noteq> state_id s)
                                    (transitions sim),
                   startState := (case startState sim of
                                    None \<Rightarrow> None
                                  | Some st \<Rightarrow>
                                      if state_id st = state_id s then None else Some st),
                   selectedState := None\<rparr>
           | None \<Rightarrow> sim))"

section \<open>Bulk testing\<close>

datatype verdict = ACCEPT | REJECT

record bulkResult =
  test_string :: string
  expected :: verdict
  actual :: verdict
  passed :: bool

text \<open>\<^verbatim>\<open>Array.prototype.indexOf\<close> and \<^verbatim>\<open>lastIndexOf\<close>: the first and the last position of a
  value, \<open>- 1\<close> when it does not occur.\<close>

fun indexOf :: "'a list \<Rightarrow> 'a \<Rightarrow> int" where
  "indexOf [] v = - 1"
| "indexOf (u # us) v =
     (if u = v then 0 else (let r = indexOf us v in if r = - 1 then - 1 else r + 1))"

fun lastIndexOf :: "'a list \<Rightarrow> 'a \<Rightarrow> int" where
  "lastIndexOf [] v = - 1"
| "lastIndexOf (u # us) v =
     (let r = lastIndexOf us v in
      if r \<noteq> - 1 then r + 1 else if u = v then 0 else - 1)"

text \<open>The body of the two \<^verbatim>\<open>forEach\<close> callbacks of \<^verbatim>\<open>runBulkTest\<close>, on the triple of
  \<^verbatim>\<open>results\<close>, \<^verbatim>\<open>totalTests\<close> and \<^verbatim>\<open>passedTests\<close>: \<open>strs\<close> is the array that is walked and
  \<open>expectedResult\<close> is \<^const>\<open>True\<close> for the accept list.\<close>

definition bulkStep ::
  "simulator \<Rightarrow> string list \<Rightarrow> bool \<Rightarrow> bulkResult list \<times> nat \<times> nat \<Rightarrow> string
   \<Rightarrow> bulkResult list \<times> nat \<times> nat" where
  "bulkStep sim strs expectedResult acc str =
     (case acc of (results, totalTests, passedTests) \<Rightarrow>
        if str = [] \<or> indexOf strs str = lastIndexOf strs str
        then (let testStr = (if str = [] then ''(empty string)'' else str);
                  actualResult = simulateInput sim str;
                  passed = (actualResult = expectedResult)
              in (results @ [\<lparr>test_string = testStr,
                              expected = (if expectedResult then ACCEPT else REJECT),
                              actual = (if actualResult then ACCEPT else REJECT),
                              passed = passed\<rparr>],
                  totalTests + 1,
                  if passed then passedTests + 1 else passedTests))
        else (results, totalTests, passedTests))"

text \<open>The two loops of \<^verbatim>\<open>runBulkTest\<close> on the arrays \<^verbatim>\<open>acceptStrings\<close> and \<^verbatim>\<open>rejectStrings\<close>:
  what is handed to \<^verbatim>\<open>displayBulkResults\<close>.\<close>

definition bulkTest :: "simulator \<Rightarrow> string list \<Rightarrow> string list \<Rightarrow> bulkResult list \<times> nat \<times> nat" where
  "bulkTest sim acceptStrings rejectStrings =
     foldl (bulkStep sim rejectStrings False)
       (foldl (bulkStep sim acceptStrings True) ([], 0, 0) acceptStrings)
       rejectStrings"

text \<open>\<^verbatim>\<open>runBulkTest\<close>, the same in all copies but for the simulator it calls; the arguments
  are the values of the text areas \<^verbatim>\<open>acceptInput\<close> and \<^verbatim>\<open>rejectInput\<close>. The filter
  \<^verbatim>\<open>s !== null\<close> keeps every line.\<close>

definition runBulkTest ::
  "string \<Rightarrow> string \<Rightarrow> simulator \<Rightarrow> signal + bulkResult list \<times> nat \<times> nat" where
  "runBulkTest acceptInput rejectInput sim =
     (if startState sim = None then Inl (Alert NoStartState)
      else Inr (bulkTest sim
             (map trim (split_js (CHR 0x0A) acceptInput))
             (map trim (split_js (CHR 0x0A) rejectInput))))"

section \<open>Example automata\<close>

text \<open>The simulator as its constructor leaves it.\<close>

definition newSimulator :: simulator where
  "newSimulator =
     \<lparr>states = [], transitions = [], selectedState = None, selectedTransition = None,
      startState = None, stateCounter = 0, debugMode = False, debugString = [],
      debugSteps = [], currentDebugStep = - 1, pendingTransitionData = None\<rparr>"

definition q0 :: state where
  "q0 = \<lparr>state_id = 0, pos_x = 100, pos_y = 100, isFinal = False, label = ''q0''\<rparr>"

definition q1 :: state where
  "q1 = \<lparr>state_id = 1, pos_x = 200, pos_y = 100, isFinal = False, label = ''q1''\<rparr>"

definition q2 :: state where
  "q2 = \<lparr>state_id = 2, pos_x = 300, pos_y = 100, isFinal = True, label = ''q2''\<rparr>"

text \<open>A transition object as "Create new transition" makes it between two different
  states with no transition back.\<close>

definition arrow :: "nat \<Rightarrow> state \<Rightarrow> string \<Rightarrow> state \<Rightarrow> transition" where
  "arrow i fromState symbols toState =
     \<lparr>transition_id = i, from_state = fromState, to_state = toState, symbol = symbols,
      offset = None, offsetDirection = None, labelOffset = Some (1 / 2),
      selfLoopAngle = None\<rparr>"

text \<open>Three states, \<open>q0\<close> the start state and \<open>q2\<close> final, and no transition yet.\<close>

definition threeStates :: simulator where
  "threeStates =
     newSimulator\<lparr>states := [q0, q1, q2], startState := Some q0, stateCounter := 3\<rparr>"

text \<open>The path \<open>q0 --a--> q1 --b--> q2\<close>, which accepts \<open>ab\<close>.\<close>

definition pathAB :: simulator where
  "pathAB = threeStates\<lparr>transitions := [arrow 10 q0 ''a'' q1, arrow 11 q1 ''b'' q2]\<rparr>"

text \<open>The fork \<open>q0 --a--> q1\<close>, \<open>q0 --b--> q2\<close>.\<close>

definition forkAB :: simulator where
  "forkAB = threeStates\<lparr>transitions := [arrow 10 q0 ''a'' q1, arrow 11 q0 ''b'' q2]\<rparr>"

section \<open>Acceptance\<close>

lemma lookup_find_carries: "lookup ts s c = find (carries (state_id s) [c]) ts"
proof -
  have "carries (state_id s) [c] =
        (\<lambda>t. state_id (from_state t) = state_id s
              \<and> [c] \<in> set (map trim (split_js (CHR '','') (symbol t))))"
    by (rule ext) (simp add: carries_def symbols_of_def)
  then show ?thesis by (simp add: lookup_def)
qed

lemma simulateLoop_walk:
  "simulateLoop ts s w = (case walk ts s w of None \<Rightarrow> False | Some q \<Rightarrow> isFinal q)"
  by (induction w arbitrary: s) (simp_all add: lookup_find_carries split: option.splits)

lemma walk_append:
  "walk ts s (u @ v) = (case walk ts s u of None \<Rightarrow> None | Some q \<Rightarrow> walk ts q v)"
  by (induction u arbitrary: s) (simp_all split: option.splits)

lemmas example_defs = newSimulator_def q0_def q1_def q2_def arrow_def threeStates_def
  pathAB_def forkAB_def

lemmas string_defs = trim_def isWhiteSpace_def symbols_of_def carries_def parseSymbols_def

lemma simulateInput_main_value: "snd (simulateInput_main sim input) = simulateInput sim input"
  by (simp add: simulateInput_main_def simulateInput_def split: option.splits)

text \<open>
  C1. \<^verbatim>\<open>simulateInput\<close> rejects when there is no start state. With a start state \<open>s\<close> it
  returns \<open>isFinal s\<close> on the empty input; on any input it follows \<open>walk\<close>, one single-symbol
  lookup per character, and returns \<open>isFinal\<close> of the state reached after the last
  character; and as soon as a lookup finds no transition, after any prefix \<open>u\<close> and
  whatever follows, it returns false.
\<close>

theorem simulateInput_walk:
  "(startState sim = None \<longrightarrow> \<not> simulateInput sim input) \<and>
   (startState sim = Some s \<longrightarrow>
      simulateInput sim [] = isFinal s \<and>
      simulateInput sim input =
        (case walk (transitions sim) s input of None \<Rightarrow> False | Some q \<Rightarrow> isFinal q) \<and>
      (walk (transitions sim) s u = Some q \<and> lookup (transitions sim) q c = None
         \<longrightarrow> \<not> simulateInput sim (u @ c # v)))"
  by (simp add: simulateInput_def simulateLoop_walk walk_append)

theorem simulateInput_walk_witness:
  "\<not> simulateInput newSimulator ''ab'' \<and>
   startState pathAB = Some q0 \<and>
   simulateInput pathAB [] = isFinal q0 \<and>
   simulateInput pathAB ''ab'' \<and>
   walk (transitions pathAB) q0 ''a'' = Some q1 \<and>
   lookup (transitions pathAB) q1 (CHR ''a'') = None \<and>
   \<not> simulateInput pathAB ''aab''"
  using simulateInput_walk [where sim = newSimulator and input = "''ab''"]
    simulateInput_walk [where sim = pathAB and input = "''ab''" and s = q0 and u = "''a''"
      and q = q1 and c = "CHR ''a''" and v = "''b''"]
  by (simp add: example_defs lookup_def string_defs)

section \<open>The trace of the step debugger\<close>

lemma visitLoop_walk_Some:
  "walk ts s w = Some q \<Longrightarrow>
     length (visitLoop ts s w) = length w \<and>
     q = fst (last ((s, None) # visitLoop ts s w))"
proof (induction w arbitrary: s)
  case Nil
  then show ?case by simp
next
  case (Cons c cs)
  from Cons.prems obtain t where t: "find (carries (state_id s) [c]) ts = Some t"
    and w: "walk ts (to_state t) cs = Some q"
    by (auto simp: lookup_find_carries split: option.splits)
  from Cons.IH [OF w] t show ?case by simp
qed

lemma debugLoop_steps:
  "debugLoop ts i s w = (ds, l) \<Longrightarrow> map step ds = [Suc i ..< Suc i + length ds]"
proof (induction w arbitrary: i s ds l)
  case Nil
  then show ?case by simp
next
  case (Cons c cs)
  show ?case
  proof (cases "find (carries (state_id s) [c]) ts")
    case None
    with Cons.prems have "map step ds = [Suc i]" by auto
    moreover from None Cons.prems have "length ds = 1" by auto
    ultimately show ?thesis by simp
  next
    case (Some t)
    obtain ds' l' where rec: "debugLoop ts (i + 1) (to_state t) cs = (ds', l')"
      by (cases "debugLoop ts (i + 1) (to_state t) cs")
    from Cons.IH [OF rec] have IH: "map step ds' = [Suc (Suc i) ..< Suc (Suc i) + length ds']"
      by simp
    from Cons.prems Some rec obtain d where ds: "ds = d # ds'" and d: "step d = Suc i"
      by auto
    have "[Suc i ..< Suc i + length ds] = Suc i # [Suc (Suc i) ..< Suc (Suc i) + length ds']"
      unfolding ds by (subst upt_conv_Cons) simp_all
    with IH ds d show ?thesis by simp
  qed
qed

lemma debugLoop_Cons_Some:
  assumes "find (carries (state_id s) [c]) ts = Some t"
    and "debugLoop ts (i + 1) (to_state t) cs = (ds', l')"
  shows "debugLoop ts i s (c # cs) =
           (\<lparr>step = i + 1, state = to_state t, char = Some c, transition = Some t,
             remaining = cs,
             message = ''Read '' @ [CHR 0x27, c, CHR 0x27] @ '', transition from ''
                       @ label s @ '' to '' @ label (to_state t),
             rejected = None, final = None, accepted = None\<rparr> # ds', l')"
  using assms by simp

lemma debugLoop_consumed:
  "walk ts s w = Some q \<Longrightarrow> debugLoop ts i s w = (ds, l) \<Longrightarrow>
     l = q \<and> length ds = length w \<and>
     map visit_of ds = visitLoop ts s w \<and>
     (\<forall>d \<in> set ds. rejected d = None \<and> final d = None)"
proof (induction w arbitrary: i s ds l)
  case Nil
  then show ?case by simp
next
  case (Cons c cs)
  from Cons.prems(1) obtain t where t: "find (carries (state_id s) [c]) ts = Some t"
    and w: "walk ts (to_state t) cs = Some q"
    by (auto simp: lookup_find_carries split: option.splits)
  obtain ds' l' where rec: "debugLoop ts (i + 1) (to_state t) cs = (ds', l')"
    by (cases "debugLoop ts (i + 1) (to_state t) cs")
  note IH = Cons.IH [OF w rec]
  from Cons.prems(2) have ds: "ds = \<lparr>step = i + 1, state = to_state t, char = Some c,
      transition = Some t, remaining = cs,
      message = ''Read '' @ [CHR 0x27, c, CHR 0x27] @ '', transition from ''
                @ label s @ '' to '' @ label (to_state t),
      rejected = None, final = None, accepted = None\<rparr> # ds'" and l: "l = l'"
    unfolding debugLoop_Cons_Some [OF t rec] by simp_all
  show ?case unfolding ds l using IH t by (simp add: visit_of_def)
qed

lemma debugLoop_stuck:
  "walk ts s w = None \<Longrightarrow> debugLoop ts i s w = (ds, l) \<Longrightarrow>
     ds \<noteq> [] \<and> rejected (last ds) = Some True \<and> final (last ds) = None \<and>
     accepted (last ds) = None \<and>
     map visit_of (butlast ds) = visitLoop ts s w \<and>
     state (last ds) = l \<and> transition (last ds) = None \<and>
     l = fst (last ((s, None) # visitLoop ts s w))"
proof (induction w arbitrary: i s ds l)
  case Nil
  then show ?case by simp
next
  case (Cons c cs)
  show ?case
  proof (cases "find (carries (state_id s) [c]) ts")
    case None
    with Cons.prems(2) show ?thesis by (auto simp: visit_of_def)
  next
    case (Some t)
    with Cons.prems(1) have w: "walk ts (to_state t) cs = None"
      by (simp add: lookup_find_carries)
    obtain ds' l' where rec: "debugLoop ts (i + 1) (to_state t) cs = (ds', l')"
      by (cases "debugLoop ts (i + 1) (to_state t) cs")
    note IH = Cons.IH [OF w rec]
    from Cons.prems(2) have ds: "ds = \<lparr>step = i + 1, state = to_state t, char = Some c,
        transition = Some t, remaining = cs,
        message = ''Read '' @ [CHR 0x27, c, CHR 0x27] @ '', transition from ''
                  @ label s @ '' to '' @ label (to_state t),
        rejected = None, final = None, accepted = None\<rparr> # ds'" and l: "l = l'"
      unfolding debugLoop_Cons_Some [OF Some rec] by simp_all
    from IH have ne: "ds' \<noteq> []" by simp
    show ?thesis unfolding ds l using IH Some ne by (simp add: visit_of_def)
  qed
qed


lemma debugLoop_pair: "\<exists>ds l. debugLoop ts i s w = (ds, l)"
  by (cases "debugLoop ts i s w") simp

text \<open>The visited sequence decides what \<^verbatim>\<open>simulateInput\<close> returns: the input is accepted
  when every character was consumed and the last visited state is final.\<close>

lemma simulateLoop_visitLoop:
  "simulateLoop ts s w \<longleftrightarrow>
     length (visitLoop ts s w) = length w \<and> isFinal (fst (last ((s, None) # visitLoop ts s w)))"
proof (induction w arbitrary: s)
  case Nil
  then show ?case by simp
next
  case (Cons c cs)
  show ?case
  proof (cases "find (carries (state_id s) [c]) ts")
    case None
    then show ?thesis by simp
  next
    case (Some t)
    have "fst (last ((to_state t, Some t) # visitLoop ts (to_state t) cs))
            = fst (last ((to_state t, None) # visitLoop ts (to_state t) cs))"
      by simp
    with Some Cons.IH [of "to_state t"] show ?thesis by simp
  qed
qed

lemma simulateInput_visited:
  "simulateInput sim input \<longleftrightarrow>
     length (visited sim input) = length input + 1 \<and>
     isFinal (fst (last (visited sim input)))"
  by (cases "startState sim")
     (simp_all add: simulateInput_def visited_def simulateLoop_visitLoop)

text \<open>The block that builds the trace, for any input: the flags of its last step give what
  \<^verbatim>\<open>simulateInput\<close> returns on that input, its steps but the last are the visited sequence,
  and its last step repeats the last visited state with no transition.\<close>

lemma buildDebugSteps_matches_simulateInput:
  assumes start: "startState sim = Some s"
    and steps: "steps = buildDebugSteps (transitions sim) s input"
  shows "simulateInput sim input
           = (truthy (final (last steps)) \<and> truthy (accepted (last steps))) \<and>
         map visit_of (butlast steps) = visited sim input \<and>
         visit_of (last steps) = (fst (last (visited sim input)), None)"
proof -
  let ?ts = "transitions sim"
  let ?first = "\<lparr>step = 0, state = s, char = None, transition = None,
                  remaining = input, message = ''Starting at state '' @ label s,
                  rejected = None, final = None, accepted = None\<rparr>"
  obtain ds l where loop: "debugLoop ?ts 0 s input = (ds, l)"
    using debugLoop_pair by blast
  have vis: "visited sim input = (s, None) # visitLoop ?ts s input"
    by (simp add: visited_def start)
  show ?thesis
  proof (cases "walk ?ts s input")
    case None
    note stuck = debugLoop_stuck [OF None loop]
    from stuck have rej: "truthy (rejected (last (?first # ds)))"
      by (simp add: truthy_def)
    have eq: "steps = ?first # ds"
      unfolding steps buildDebugSteps_def loop using rej by (simp add: Let_def)
    have acc: "\<not> simulateInput sim input"
      by (simp add: simulateInput_def start simulateLoop_walk None)
    from stuck have "ds \<noteq> []" by simp
    with stuck acc show ?thesis
      unfolding eq vis by (simp add: truthy_def visit_of_def)
  next
    case (Some q)
    note cons = debugLoop_consumed [OF Some loop]
    have "rejected (last (?first # ds)) = None"
    proof (cases "ds = []")
      case True
      then show ?thesis by simp
    next
      case False
      then have "last ds \<in> set ds" by simp
      with cons False show ?thesis by simp
    qed
    then have rej: "\<not> truthy (rejected (last (?first # ds)))"
      by (simp add: truthy_def)
    have eq: "steps = (?first # ds) @
        [\<lparr>step = length input + 1, state = l, char = None,
          transition = None, remaining = [],
          message = ''String consumed. '' @ label l @ '' is ''
                    @ (if isFinal l then [] else ''not '')
                    @ ''a final state. ''
                    @ (if isFinal l then ''ACCEPTED'' else ''REJECTED'')
                    @ ''.'',
          rejected = None, final = Some True, accepted = Some (isFinal l)\<rparr>]"
      unfolding steps buildDebugSteps_def loop using rej by (simp add: Let_def)
    have acc: "simulateInput sim input = isFinal q"
      by (simp add: simulateInput_def start simulateLoop_walk Some)
    from visitLoop_walk_Some [OF Some]
    have q: "q = fst (last ((s, None) # visitLoop ?ts s input))" by simp
    have l: "l = q" using cons by simp
    have m: "map visit_of ds = visitLoop ?ts s input" using cons by simp
    show ?thesis
      unfolding eq vis acc using q l m
      by (simp add: truthy_def visit_of_def)
  qed
qed


lemmas run_defs = simulateInput_def buildDebugSteps_def visited_def truthy_def visit_of_def
  startStepDebug_def updateDebugDisplay_def lookup_def Let_def

lemma trim_single: "trim y = [c] \<Longrightarrow> \<not> isWhiteSpace c"
proof -
  assume "trim y = [c]"
  then have "rev (dropWhile isWhiteSpace (rev (dropWhile isWhiteSpace y))) = [c]"
    by (simp add: trim_def)
  then have d: "dropWhile isWhiteSpace (rev (dropWhile isWhiteSpace y)) = [c]"
    by (metis rev_singleton_conv rev_rev_ident)
  with hd_dropWhile [of isWhiteSpace "rev (dropWhile isWhiteSpace y)"]
  show ?thesis by simp
qed

lemma lookup_Some:
  "lookup ts s c = Some t \<Longrightarrow>
     t \<in> set ts \<and> state_id (from_state t) = state_id s \<and> [c] \<in> set (symbols_of t)"
  by (auto simp: lookup_def symbols_of_def find_Some_iff)

lemma lookup_not_space: "lookup ts s c = Some t \<Longrightarrow> \<not> isWhiteSpace c"
  using lookup_Some [of ts s c t] trim_single by (auto simp: symbols_of_def)

lemma trim_two: "\<not> isWhiteSpace a \<Longrightarrow> \<not> isWhiteSpace b \<Longrightarrow> trim [a, b] = [a, b]"
  by (simp add: trim_def)

lemma startStepDebug_steps:
  "startState sim = Some s \<Longrightarrow>
     startStepDebug testInput sim =
       (None, sim\<lparr>debugMode := True, debugString := trim testInput,
                   debugSteps := buildDebugSteps (transitions sim) s (trim testInput),
                   currentDebugStep := 0\<rparr>)"
  by (simp add: startStepDebug_def updateDebugDisplay_def buildDebugSteps_def Let_def
      split: prod.splits)

text \<open>
  C3, as amended. \<^verbatim>\<open>startStepDebug\<close> builds the trace for the value of the text field with the
  white space at both ends removed, and records that string as \<open>debugString\<close>. With a start
  state, \<^verbatim>\<open>simulateInput\<close> on that trimmed string returns the conjunction of the flags \<open>final\<close>
  and \<open>accepted\<close> of the last step of the trace; for a value without white space at its ends
  this is \<^verbatim>\<open>simulateInput\<close> on the value itself. The trace records the states and transitions
  that \<^verbatim>\<open>simulateInput\<close> visits on the trimmed string and then one step more: all its steps
  but the last are the visited sequence, and the last step, the one marked \<open>rejected\<close> or
  \<open>final\<close>, repeats the last visited state with no transition.
\<close>

theorem trace_matches_simulateInput:
  assumes start: "startState sim = Some s"
    and steps: "steps = debugSteps (snd (startStepDebug testInput sim))"
  shows "debugString (snd (startStepDebug testInput sim)) = trim testInput \<and>
         simulateInput sim (trim testInput)
           = (truthy (final (last steps)) \<and> truthy (accepted (last steps))) \<and>
         (trim testInput = testInput \<longrightarrow>
            simulateInput sim testInput
              = (truthy (final (last steps)) \<and> truthy (accepted (last steps)))) \<and>
         map visit_of (butlast steps) = visited sim (trim testInput) \<and>
         visit_of (last steps) = (fst (last (visited sim (trim testInput))), None)"
proof -
  have built: "steps = buildDebugSteps (transitions sim) s (trim testInput)"
    unfolding steps by (simp add: startStepDebug_steps [OF start])
  have "debugString (snd (startStepDebug testInput sim)) = trim testInput"
    by (simp add: startStepDebug_steps [OF start])
  with buildDebugSteps_matches_simulateInput [OF start built] show ?thesis
    by auto
qed

theorem trace_matches_simulateInput_witness:
  "startState pathAB = Some q0 \<and>
   debugString (snd (startStepDebug '' ab '' pathAB)) = ''ab'' \<and>
   simulateInput pathAB ''ab'' \<and>
   truthy (final (last (debugSteps (snd (startStepDebug '' ab '' pathAB))))) \<and>
   truthy (accepted (last (debugSteps (snd (startStepDebug '' ab '' pathAB))))) \<and>
   map visit_of (butlast (debugSteps (snd (startStepDebug '' ab '' pathAB))))
     = visited pathAB ''ab'' \<and>
   visit_of (last (debugSteps (snd (startStepDebug '' ab '' pathAB)))) = (q2, None)"
  using trace_matches_simulateInput [of pathAB q0 _ "'' ab ''", OF _ refl]
  by (simp add: example_defs run_defs string_defs)

text \<open>
  C3 as stated fails twice on the path that accepts \<open>ab\<close>. The trace of \<open>ab\<close> is not the
  sequence that \<^verbatim>\<open>simulateInput\<close> visits, because of the closing step. And for the value
  \<open>ab\<close> with a space in front \<^verbatim>\<open>simulateInput\<close> rejects, since no symbol is a space, while
  the trace is that of \<open>ab\<close> and ends \<open>final\<close> and \<open>accepted\<close>.
\<close>

theorem trace_has_one_more_step:
  "map visit_of (debugSteps (snd (startStepDebug ''ab'' pathAB))) \<noteq> visited pathAB ''ab'' \<and>
   \<not> simulateInput pathAB '' ab'' \<and>
   truthy (final (last (debugSteps (snd (startStepDebug '' ab'' pathAB))))) \<and>
   truthy (accepted (last (debugSteps (snd (startStepDebug '' ab'' pathAB)))))"
  by (simp add: example_defs run_defs string_defs)

text \<open>
  C7, as amended. With a start state and a two-character input that is consumed along an
  accepting path, the trace has exactly four steps, numbered 0, 1, 2 and 3. Step 0 has no
  character and no transition. The step numbered 2 holds the state reached by the second
  character and has no \<open>final\<close> flag. The step numbered 3 is the last one and carries
  \<open>final = true\<close> and \<open>accepted = true\<close>.
\<close>

theorem trace_of_two_characters:
  assumes start: "startState sim = Some s"
    and a: "lookup (transitions sim) s a = Some t1"
    and b: "lookup (transitions sim) (to_state t1) b = Some t2"
    and acc: "isFinal (to_state t2)"
    and steps: "steps = debugSteps (snd (startStepDebug [a, b] sim))"
  shows "length steps = 4 \<and> map step steps = [0, 1, 2, 3] \<and>
         char (steps ! 0) = None \<and> transition (steps ! 0) = None \<and>
         state (steps ! 2) = to_state t2 \<and> final (steps ! 2) = None \<and>
         last steps = steps ! 3 \<and> final (steps ! 3) = Some True \<and>
         accepted (steps ! 3) = Some True"
proof -
  have "trim [a, b] = [a, b]"
    using lookup_not_space [OF a] lookup_not_space [OF b] by (rule trim_two)
  then have "steps = buildDebugSteps (transitions sim) s [a, b]"
    unfolding steps by (simp add: startStepDebug_steps [OF start])
  moreover have "find (carries (state_id s) [a]) (transitions sim) = Some t1"
    using a by (simp add: lookup_find_carries)
  moreover have "find (carries (state_id (to_state t1)) [b]) (transitions sim) = Some t2"
    using b by (simp add: lookup_find_carries)
  ultimately show ?thesis
    using acc by (simp add: buildDebugSteps_def truthy_def)
qed

theorem trace_of_two_characters_witness:
  "startState pathAB = Some q0 \<and>
   lookup (transitions pathAB) q0 (CHR ''a'') = Some (arrow 10 q0 ''a'' q1) \<and>
   lookup (transitions pathAB) q1 (CHR ''b'') = Some (arrow 11 q1 ''b'' q2) \<and>
   isFinal q2 \<and>
   map step (debugSteps (snd (startStepDebug ''ab'' pathAB))) = [0, 1, 2, 3] \<and>
   final (debugSteps (snd (startStepDebug ''ab'' pathAB)) ! 3) = Some True"
  using trace_of_two_characters [of pathAB q0 "CHR ''a''" "arrow 10 q0 ''a'' q1"
      "CHR ''b''" "arrow 11 q1 ''b'' q2" _, OF _ _ _ _ refl]
  by (simp add: example_defs run_defs string_defs)

text \<open>
  C7 as stated fails: the trace of \<open>ab\<close> on the path that accepts it does not have three
  steps.
\<close>

theorem trace_of_ab_has_four_steps:
  "length (debugSteps (snd (startStepDebug ''ab'' pathAB))) \<noteq> 3"
  by (simp add: example_defs run_defs string_defs)


section \<open>Stepping through the trace\<close>

lemma buildDebugSteps_nonempty: "buildDebugSteps ts s w \<noteq> []"
  by (simp add: buildDebugSteps_def Let_def split: prod.splits)

lemma stepNext_in_range:
  assumes "0 \<le> currentDebugStep sim" "currentDebugStep sim < int (length (debugSteps sim))"
  shows "\<exists>sim'. stepNext sim = (None, sim') \<and> debugSteps sim' = debugSteps sim \<and>
           0 \<le> currentDebugStep sim' \<and>
           currentDebugStep sim' < int (length (debugSteps sim'))"
  using assms by (auto simp: stepNext_def updateDebugDisplay_def)

lemma stepPrev_in_range:
  assumes "0 \<le> currentDebugStep sim" "currentDebugStep sim < int (length (debugSteps sim))"
  shows "\<exists>sim'. stepPrev sim = (None, sim') \<and> debugSteps sim' = debugSteps sim \<and>
           0 \<le> currentDebugStep sim' \<and>
           currentDebugStep sim' < int (length (debugSteps sim'))"
  using assms by (auto simp: stepPrev_def updateDebugDisplay_def)

lemma pressButtons_in_range:
  assumes "0 \<le> currentDebugStep sim" "currentDebugStep sim < int (length (debugSteps sim))"
  shows "\<exists>sim'. pressButtons bs sim = (None, sim') \<and> debugSteps sim' = debugSteps sim \<and>
           0 \<le> currentDebugStep sim' \<and>
           currentDebugStep sim' < int (length (debugSteps sim'))"
  using assms
proof (induction bs arbitrary: sim)
  case Nil
  then show ?case by simp
next
  case (Cons b bs)
  obtain sim1 where one: "(case b of Next \<Rightarrow> stepNext sim | Prev \<Rightarrow> stepPrev sim) = (None, sim1)"
    and same: "debugSteps sim1 = debugSteps sim"
    and lo: "0 \<le> currentDebugStep sim1"
    and hi: "currentDebugStep sim1 < int (length (debugSteps sim1))"
    using stepNext_in_range [OF Cons.prems] stepPrev_in_range [OF Cons.prems]
    by (cases b) auto
  from Cons.IH [OF lo hi] same one show ?case by auto
qed

text \<open>
  C10. Once \<^verbatim>\<open>startStepDebug\<close> has built a trace, which has at least one step, no sequence
  of \<^verbatim>\<open>stepNext\<close> and \<^verbatim>\<open>stepPrev\<close> calls throws, changes the trace, or moves the current step
  index out of the range from 0 to the number of steps minus one; \<^verbatim>\<open>stepNext\<close> at the last
  step and \<^verbatim>\<open>stepPrev\<close> at step 0 change nothing.
\<close>

theorem stepping_stays_in_trace:
  assumes start: "startState sim = Some s"
    and built: "startStepDebug testInput sim = (r, sim1)"
    and pressed: "pressButtons bs sim1 = (r', sim2)"
  shows "r = None \<and> r' = None \<and> debugSteps sim2 = debugSteps sim1 \<and>
         1 \<le> length (debugSteps sim1) \<and>
         0 \<le> currentDebugStep sim2 \<and>
         currentDebugStep sim2 \<le> int (length (debugSteps sim1)) - 1 \<and>
         (currentDebugStep sim2 = int (length (debugSteps sim1)) - 1
            \<longrightarrow> stepNext sim2 = (None, sim2)) \<and>
         (currentDebugStep sim2 = 0 \<longrightarrow> stepPrev sim2 = (None, sim2))"
proof -
  from built have r: "r = None"
    and sim1: "sim1 = sim\<lparr>debugMode := True, debugString := trim testInput,
                 debugSteps := buildDebugSteps (transitions sim) s (trim testInput),
                 currentDebugStep := 0\<rparr>"
    by (simp_all add: startStepDebug_steps [OF start])
  have ne: "debugSteps sim1 \<noteq> []"
    by (simp add: sim1 buildDebugSteps_nonempty)
  then have lo: "0 \<le> currentDebugStep sim1"
    and hi: "currentDebugStep sim1 < int (length (debugSteps sim1))"
    by (simp_all add: sim1)
  from pressButtons_in_range [OF lo hi, of bs] pressed
  have r': "r' = None" and same: "debugSteps sim2 = debugSteps sim1"
    and lo2: "0 \<le> currentDebugStep sim2"
    and hi2: "currentDebugStep sim2 < int (length (debugSteps sim2))"
    by auto
  from ne have "1 \<le> length (debugSteps sim1)"
    by (cases "debugSteps sim1") simp_all
  with r r' same lo2 hi2 show ?thesis
    by (simp add: stepNext_def stepPrev_def)
qed

theorem stepping_stays_in_trace_witness:
  "startState pathAB = Some q0 \<and>
   fst (startStepDebug ''a'' pathAB) = None \<and>
   length (debugSteps (snd (startStepDebug ''a'' pathAB))) = 3 \<and>
   fst (pressButtons [Prev, Next, Next, Next] (snd (startStepDebug ''a'' pathAB))) = None \<and>
   currentDebugStep
     (snd (pressButtons [Prev, Next, Next, Next] (snd (startStepDebug ''a'' pathAB)))) = 2"
  using stepping_stays_in_trace [of pathAB q0 "''a''" _ _ "[Prev, Next, Next, Next]",
      OF _ surjective_pairing surjective_pairing]
  by (simp add: example_defs run_defs string_defs stepNext_def stepPrev_def)


section \<open>Deleting a state\<close>

lemma confirmDelete_main_eq: "confirmDelete_main sim = confirmDelete sim"
  by (simp add: confirmDelete_main_def confirmDelete_def deleteState_def deleteTransition_def
      split: option.splits)

lemma filter_other_ids:
  assumes "s \<in> set ss" and "distinct (map state_id ss)"
  shows "filter (\<lambda>s'. state_id s' \<noteq> state_id s) ss = removeAll s ss"
proof -
  have "\<And>s'. s' \<in> set ss \<Longrightarrow> (state_id s' \<noteq> state_id s) = (s' \<noteq> s)"
    using assms by (auto simp: distinct_map inj_on_def)
  then have "filter (\<lambda>s'. state_id s' \<noteq> state_id s) ss = filter (\<lambda>s'. s' \<noteq> s) ss"
    by (intro filter_cong) auto
  then show ?thesis by (simp add: removeAll_filter_not_eq) metis
qed

text \<open>
  C6. For a state \<open>s\<close> of a model whose state ids are unique, \<^verbatim>\<open>deleteState\<close> removes \<open>s\<close> from
  the states and keeps every other state; it removes the transitions whose \<^verbatim>\<open>from\<close> or \<^verbatim>\<open>to\<close>
  has the id of \<open>s\<close> and keeps every other transition, in order and as it is; the start
  state becomes null when it has the id of \<open>s\<close> and is unchanged otherwise.
  \<^verbatim>\<open>confirmDelete\<close>, in baseAutomaton.js and in main.js, does the same for the selected state
  when no transition is selected.
\<close>

theorem deleteState_removes_incident:
  assumes "s \<in> set (states sim)" and "distinct (map state_id (states sim))"
  shows "states (deleteState s sim) = removeAll s (states sim) \<and>
         set (states (deleteState s sim)) = set (states sim) - {s} \<and>
         transitions (deleteState s sim) =
           filter (\<lambda>t. \<not> (state_id (from_state t) = state_id s
                          \<or> state_id (to_state t) = state_id s)) (transitions sim) \<and>
         startState (deleteState s sim) =
           (case startState sim of
              None \<Rightarrow> None
            | Some st \<Rightarrow> if state_id st = state_id s then None else Some st) \<and>
         (selectedTransition sim = None \<and> selectedState sim = Some s \<longrightarrow>
            confirmDelete sim = deleteState s sim \<and>
            confirmDelete_main sim = deleteState s sim)"
  using filter_other_ids [OF assms]
  by (simp add: deleteState_def confirmDelete_main_eq confirmDelete_def)

theorem deleteState_removes_incident_witness:
  "q1 \<in> set (states pathAB) \<and> distinct (map state_id (states pathAB)) \<and>
   states (deleteState q1 pathAB) = [q0, q2] \<and>
   transitions (deleteState q1 pathAB) = [] \<and>
   startState (deleteState q1 pathAB) = Some q0 \<and>
   states (deleteState q0 forkAB) = [q1, q2] \<and>
   startState (deleteState q0 forkAB) = None \<and>
   confirmDelete_main (pathAB\<lparr>selectedState := Some q1\<rparr>) = deleteState q1 pathAB"
  using deleteState_removes_incident [of q1 pathAB]
    deleteState_removes_incident [of q0 forkAB]
    deleteState_removes_incident [of q1 "pathAB\<lparr>selectedState := Some q1\<rparr>"]
  by (simp add: example_defs deleteState_def)


section \<open>The results of a bulk test\<close>

lemma indexOf_range: "- 1 \<le> indexOf us v \<and> (indexOf us v = - 1) = (v \<notin> set us)"
proof (induction us)
  case Nil
  then show ?case by simp
next
  case (Cons u us)
  then have "- 1 \<le> indexOf us v" and "(indexOf us v = - 1) = (v \<notin> set us)"
    by simp_all
  then show ?case by (auto simp: Let_def)
qed

lemma lastIndexOf_range:
  "- 1 \<le> lastIndexOf us v \<and> (lastIndexOf us v = - 1) = (v \<notin> set us)"
proof (induction us)
  case Nil
  then show ?case by simp
next
  case (Cons u us)
  then have "- 1 \<le> lastIndexOf us v" and "(lastIndexOf us v = - 1) = (v \<notin> set us)"
    by simp_all
  then show ?case by (auto simp: Let_def)
qed

lemma indexOf_absent: "(indexOf us v = - 1) = (v \<notin> set us)"
  using indexOf_range [of us v] by simp

lemma lastIndexOf_absent: "(lastIndexOf us v = - 1) = (v \<notin> set us)"
  using lastIndexOf_range [of us v] by simp

lemma indexOf_eq_lastIndexOf:
  "v \<in> set us \<Longrightarrow> (indexOf us v = lastIndexOf us v) = (count_list us v = 1)"
proof (induction us)
  case Nil
  then show ?case by simp
next
  case (Cons u us)
  show ?case
  proof (cases "u = v")
    case True
    have "lastIndexOf (u # us) v = 0 \<longleftrightarrow> v \<notin> set us"
      using lastIndexOf_range [of us v] True by (auto simp: Let_def)
    moreover have "indexOf (u # us) v = 0" using True by simp
    moreover have "count_list (u # us) v = 1 \<longleftrightarrow> v \<notin> set us"
      using True by (simp add: count_list_0_iff)
    ultimately show ?thesis by metis
  next
    case False
    with Cons.prems have "v \<in> set us" by simp
    with Cons.IH False show ?thesis
      by (simp add: Let_def indexOf_absent lastIndexOf_absent)
  qed
qed

lemma foldl_bulkStep:
  "foldl (bulkStep sim strs e) (rs, n, k) xs =
     (rs @ map (\<lambda>str. \<lparr>test_string = (if str = [] then ''(empty string)'' else str),
                        expected = (if e then ACCEPT else REJECT),
                        actual = (if simulateInput sim str then ACCEPT else REJECT),
                        passed = (simulateInput sim str = e)\<rparr>)
             (filter (\<lambda>str. str = [] \<or> indexOf strs str = lastIndexOf strs str) xs),
      n + length (filter (\<lambda>str. str = [] \<or> indexOf strs str = lastIndexOf strs str) xs),
      k + length (filter (\<lambda>str. (str = [] \<or> indexOf strs str = lastIndexOf strs str)
                                 \<and> simulateInput sim str = e) xs))"
  by (induction xs arbitrary: rs n k) (simp_all add: bulkStep_def Let_def)

lemma filter_tested:
  "filter (\<lambda>str. str = [] \<or> indexOf strs str = lastIndexOf strs str) strs
     = filter (\<lambda>str. str = [] \<or> count_list strs str = 1) strs"
  by (rule filter_cong) (auto simp: indexOf_eq_lastIndexOf)

lemma runBulkTest_with_start:
  "startState sim = Some s \<Longrightarrow>
     runBulkTest acceptInput rejectInput sim =
       Inr (bulkTest sim (map trim (split_js (CHR 0x0A) acceptInput))
                         (map trim (split_js (CHR 0x0A) rejectInput)))"
  by (simp add: runBulkTest_def)

text \<open>
  C9, as amended. The results of the bulk test hold, in order, one entry for each string of
  the accept list that is empty or occurs exactly once in the accept list, and then one for
  each string of the reject list that is empty or occurs exactly once in the reject list. A
  non-empty string that is repeated within its list gets no entry. Each entry records the
  string (the empty one as "(empty string)"), the expected outcome, what \<^verbatim>\<open>simulateInput\<close>
  returned for the string, and whether the two match.
\<close>

theorem bulkTest_results:
  "fst (bulkTest sim acceptStrings rejectStrings) =
     map (\<lambda>str. \<lparr>test_string = (if str = [] then ''(empty string)'' else str),
                  expected = ACCEPT,
                  actual = (if simulateInput sim str then ACCEPT else REJECT),
                  passed = simulateInput sim str\<rparr>)
       (filter (\<lambda>str. str = [] \<or> count_list acceptStrings str = 1) acceptStrings) @
     map (\<lambda>str. \<lparr>test_string = (if str = [] then ''(empty string)'' else str),
                  expected = REJECT,
                  actual = (if simulateInput sim str then ACCEPT else REJECT),
                  passed = (\<not> simulateInput sim str)\<rparr>)
       (filter (\<lambda>str. str = [] \<or> count_list rejectStrings str = 1) rejectStrings)"
  by (simp add: bulkTest_def foldl_bulkStep filter_tested)

text \<open>
  C9 as stated fails: with \<open>ab\<close> twice in the accept list the results hold no entry for
  \<open>ab\<close>, only the one for the reject list.
\<close>

theorem bulkTest_skips_repeated:
  "map test_string (fst (bulkTest pathAB [''ab'', ''ab''] [''b''])) = [''b'']"
  by (simp add: bulkTest_def bulkStep_def example_defs run_defs string_defs)


section \<open>Failed calls change nothing\<close>

lemmas transition_defs = confirmTransition_def confirmTransition_main_def addTransition_def
  validateTransition_def firstDuplicate_def createNewTransition_def mergeSymbols_def
  pushTransition_def replaceSymbols_def Let_def

lemma mergeSymbols_failed: "mergeSymbols i symbols sim = (Some e, sim') \<Longrightarrow> sim' = sim"
  by (simp add: mergeSymbols_def Let_def split: if_splits)

lemma createNewTransition_failed:
  "createNewTransition fresh fromState toState symbols sim = (Some e, sim') \<Longrightarrow> sim' = sim"
  by (auto simp: createNewTransition_def split: option.splits dest: mergeSymbols_failed)

lemma confirmTransition_failed:
  "confirmTransition transitionInput fresh sim = (Some e, sim') \<Longrightarrow> sim' = sim"
  by (auto simp: confirmTransition_def Let_def
      split: if_splits option.splits sum.splits prod.splits
      dest: createNewTransition_failed)

lemma confirmTransition_main_failed:
  "confirmTransition_main transitionInput fresh sim = (Some e, sim') \<Longrightarrow> sim' = sim"
  by (auto simp: confirmTransition_main_def Let_def
      split: if_splits option.splits prod.splits
      dest: mergeSymbols_failed)

text \<open>
  C5. When \<^verbatim>\<open>confirmTransition\<close> reports anything, by an alert or by an exception, the
  simulator is exactly as it was before the call: states, transitions with their symbols,
  and start state. This holds for the method of baseAutomaton.js with the validation of the
  DFA subclass and for the method of main.js.
\<close>

theorem failed_confirmTransition_changes_nothing:
  "(fst (confirmTransition transitionInput fresh sim) \<noteq> None \<longrightarrow>
      snd (confirmTransition transitionInput fresh sim) = sim) \<and>
   (fst (confirmTransition_main transitionInput fresh sim) \<noteq> None \<longrightarrow>
      snd (confirmTransition_main transitionInput fresh sim) = sim)"
proof -
  have "snd (confirmTransition transitionInput fresh sim) = sim"
    if "fst (confirmTransition transitionInput fresh sim) \<noteq> None"
    using that confirmTransition_failed [of transitionInput fresh sim]
    by (cases "confirmTransition transitionInput fresh sim") auto
  moreover have "snd (confirmTransition_main transitionInput fresh sim) = sim"
    if "fst (confirmTransition_main transitionInput fresh sim) \<noteq> None"
    using that confirmTransition_main_failed [of transitionInput fresh sim]
    by (cases "confirmTransition_main transitionInput fresh sim") auto
  ultimately show ?thesis by blast
qed

theorem failed_confirmTransition_changes_nothing_witness:
  "fst (confirmTransition ''a'' 12 (addTransition q0 q1 forkAB))
     = Some (Alert (DeterminismViolation ''q0'' ''a'')) \<and>
   snd (confirmTransition ''a'' 12 (addTransition q0 q1 forkAB)) = addTransition q0 q1 forkAB \<and>
   fst (confirmTransition_main ''ab'' 12 (addTransition q0 q1 forkAB))
     = Some (Alert InvalidSymbol) \<and>
   snd (confirmTransition_main ''ab'' 12 (addTransition q0 q1 forkAB))
     = addTransition q0 q1 forkAB"
  using failed_confirmTransition_changes_nothing [of "''a''" 12 "addTransition q0 q1 forkAB"]
    failed_confirmTransition_changes_nothing [of "''ab''" 12 "addTransition q0 q1 forkAB"]
  by (simp add: example_defs transition_defs string_defs)


section \<open>Merging into an existing transition\<close>

lemma findIndex_Some: "findIndex P vs = Some i \<Longrightarrow> i < length vs \<and> P (vs ! i)"
proof (induction vs arbitrary: i)
  case Nil
  then show ?case by simp
next
  case (Cons v vs)
  show ?case
  proof (cases "P v")
    case True
    with Cons.prems show ?thesis by simp
  next
    case False
    with Cons.prems obtain j where "findIndex P vs = Some j" and "i = Suc j" by auto
    with Cons.IH [of j] show ?thesis by simp
  qed
qed

lemma validateTransition_ok:
  assumes "validateTransition sim fromState toState symbols = Inr ok"
  shows "\<forall>symb \<in> set symbols. length symb = 1 \<and>
           (\<forall>t \<in> set (transitions sim). \<not> carries (state_id fromState) symb t)"
  using assms
  by (auto simp: validateTransition_def firstDuplicate_def find_None_iff
      split: option.splits)

lemma validateTransition_error:
  "validateTransition sim fromState toState symbols = Inl e \<Longrightarrow>
     e = InvalidSymbol \<or> (\<exists>symb. e = DeterminismViolation (label fromState) symb)"
  by (auto simp: validateTransition_def split: option.splits)

lemma mergeSymbols_after_validation:
  assumes ok: "validateTransition sim fromState toState symbols = Inr ok"
    and i: "findIndex (\<lambda>t. state_id (from_state t) = state_id fromState
                          \<and> state_id (to_state t) = state_id toState) (transitions sim) = Some i"
  shows "filter (\<lambda>s. s \<notin> set (symbols_of (transitions sim ! i))) symbols = symbols"
proof -
  from findIndex_Some [OF i] have "transitions sim ! i \<in> set (transitions sim)"
    and "state_id (from_state (transitions sim ! i)) = state_id fromState"
    by simp_all
  with validateTransition_ok [OF ok]
  have "\<forall>symb \<in> set symbols. symb \<notin> set (symbols_of (transitions sim ! i))"
    by (auto simp: carries_def)
  then show ?thesis by (simp add: filter_id_conv)
qed

lemma createNewTransition_after_validation:
  assumes "validateTransition sim fromState toState symbols = Inr ok" and "symbols \<noteq> []"
  shows "fst (createNewTransition fresh fromState toState symbols sim) = None"
  using assms mergeSymbols_after_validation [OF assms(1)]
  by (auto simp: createNewTransition_def mergeSymbols_def Let_def split: option.splits)

lemma confirmTransition_never_DuplicateSymbol:
  "fst (confirmTransition transitionInput fresh sim) \<noteq> Some (Alert DuplicateSymbol) \<and>
   fst (confirmTransition transitionInput fresh sim) \<noteq> Some (Throw DuplicateSymbol)"
proof (cases "trim transitionInput = [] \<or> parseSymbols (trim transitionInput) = []")
  case True
  then show ?thesis by (auto simp: confirmTransition_def Let_def)
next
  case False
  let ?symbols = "parseSymbols (trim transitionInput)"
  show ?thesis
  proof (cases "pendingTransitionData sim")
    case None
    with False show ?thesis by (simp add: confirmTransition_def Let_def)
  next
    case (Some p)
    show ?thesis
    proof (cases "validateTransition sim (pending_from p) (pending_to p) ?symbols")
      case (Inl e)
      with validateTransition_error [OF Inl] False Some show ?thesis
        by (auto simp: confirmTransition_def Let_def)
    next
      case (Inr ok)
      from False have "?symbols \<noteq> []" by simp
      from createNewTransition_after_validation [OF Inr this]
      have "fst (createNewTransition fresh (pending_from p) (pending_to p) ?symbols sim) = None" .
      with False Some Inr show ?thesis
        by (auto simp: confirmTransition_def Let_def split: option.splits prod.splits)
    qed
  qed
qed

lemma parseSymbols_nonempty: "parseSymbols input \<noteq> [] \<Longrightarrow> input \<noteq> []"
  by (auto simp: parseSymbols_def trim_def)

lemma confirmTransition_main_all_present:
  assumes pending: "pendingTransitionData sim = Some p" "editingTransition p = None"
    and existing: "findIndex (\<lambda>t. state_id (from_state t) = state_id (pending_from p)
                                  \<and> state_id (to_state t) = state_id (pending_to p))
                     (transitions sim) = Some i"
    and symbols: "parseSymbols (trim transitionInput) \<noteq> []"
      "\<forall>symb \<in> set (parseSymbols (trim transitionInput)). length symb = 1"
    and present: "set (parseSymbols (trim transitionInput))
                    \<subseteq> set (symbols_of (transitions sim ! i))"
  shows "confirmTransition_main transitionInput fresh sim = (Some (Alert DuplicateSymbol), sim)"
proof -
  have "trim transitionInput \<noteq> []"
    using symbols(1) by (rule parseSymbols_nonempty)
  moreover have "find (\<lambda>symb. length symb \<noteq> 1) (parseSymbols (trim transitionInput)) = None"
    using symbols(2) by (simp add: find_None_iff)
  moreover have "filter (\<lambda>s. s \<notin> set (symbols_of (transitions sim ! i)))
                   (parseSymbols (trim transitionInput)) = []"
    using present by (auto simp: filter_empty_conv)
  ultimately show ?thesis
    using pending existing symbols(1)
    by (simp add: confirmTransition_main_def mergeSymbols_def Let_def)
qed

text \<open>
  C4, where the two methods depart from it. The claim: when the pair already has a
  transition, a requested symbol that is new to it is rejected exactly when another
  transition from the same state carries it, and symbols already on it never cause a
  determinism failure. In main.js the merge runs no determinism check: on the fork
  \<open>q0 --a--> q1\<close>, \<open>q0 --b--> q2\<close> the symbol \<open>a\<close> is merged into \<open>q0 --b--> q2\<close> although
  \<open>q0 --a--> q1\<close> carries it. In baseAutomaton.js the validation of the DFA subclass counts
  the transition that is merged into: the request \<open>a, c\<close> for \<open>q0 --a--> q1\<close> fails on \<open>a\<close>,
  although \<open>c\<close> is new and no transition carries it.
\<close>

theorem merge_misses_some_checks_and_adds_others:
  "confirmTransition_main ''a'' 12 (addTransition q0 q2 forkAB) =
     (None, addTransition q0 q2 forkAB
              \<lparr>transitions := [arrow 10 q0 ''a'' q1, arrow 11 q0 ''b, a'' q2]\<rparr>) \<and>
   fst (confirmTransition ''a, c'' 12 (addTransition q0 q1 forkAB))
     = Some (Alert (DeterminismViolation ''q0'' ''a''))"
  by (simp add: example_defs transition_defs string_defs)

text \<open>
  C8, where baseAutomaton.js departs from it. The claim: a request whose symbols are all on
  the existing transition of the pair fails with the message "All symbols already exist for
  this transition!" and with no other. With the validation of the DFA subclass the request
  \<open>a\<close> for \<open>q0 --a--> q1\<close> fails with the DFA rule violation instead; the lemma
  \<open>confirmTransition_never_DuplicateSymbol\<close> shows that this method never gives the other
  message, and \<open>confirmTransition_main_all_present\<close> that the method of main.js gives it.
\<close>

theorem merge_of_present_symbols_reports_determinism:
  "fst (confirmTransition ''a'' 12 (addTransition q0 q1 forkAB))
     = Some (Alert (DeterminismViolation ''q0'' ''a''))"
  by (simp add: example_defs transition_defs string_defs)

lemma confirmTransition_main_merges_unchecked:
  assumes pending: "pendingTransitionData sim = Some p" "editingTransition p = None"
    and existing: "findIndex (\<lambda>t. state_id (from_state t) = state_id (pending_from p)
                                  \<and> state_id (to_state t) = state_id (pending_to p))
                     (transitions sim) = Some i"
    and symbols: "\<forall>symb \<in> set (parseSymbols (trim transitionInput)). length symb = 1"
    and new: "filter (\<lambda>s. s \<notin> set (symbols_of (transitions sim ! i)))
                (parseSymbols (trim transitionInput)) \<noteq> []"
  shows "confirmTransition_main transitionInput fresh sim =
           (None, sim\<lparr>transitions := (transitions sim)
              [i := (transitions sim ! i)
                 \<lparr>symbol := join_js '', ''
                    (symbols_of (transitions sim ! i) @
                     filter (\<lambda>s. s \<notin> set (symbols_of (transitions sim ! i)))
                       (parseSymbols (trim transitionInput)))\<rparr>]\<rparr>)"
proof -
  from new have "parseSymbols (trim transitionInput) \<noteq> []" by auto
  moreover from this have "trim transitionInput \<noteq> []"
    by (rule parseSymbols_nonempty)
  moreover have "find (\<lambda>symb. length symb \<noteq> 1) (parseSymbols (trim transitionInput)) = None"
    using symbols by (simp add: find_None_iff)
  ultimately show ?thesis
    using pending existing new
    by (simp add: confirmTransition_main_def mergeSymbols_def Let_def)
qed

lemma confirmTransition_rejects_present_symbol:
  assumes pending: "pendingTransitionData sim = Some p"
    and existing: "findIndex (\<lambda>t. state_id (from_state t) = state_id (pending_from p)
                                  \<and> state_id (to_state t) = state_id (pending_to p))
                     (transitions sim) = Some i"
    and symbols: "\<forall>symb \<in> set (parseSymbols (trim transitionInput)). length symb = 1"
    and present: "symb \<in> set (parseSymbols (trim transitionInput))"
      "symb \<in> set (symbols_of (transitions sim ! i))"
  shows "\<exists>c. confirmTransition transitionInput fresh sim =
               (Some (Alert (DeterminismViolation (label (pending_from p)) c)), sim)"
proof -
  let ?symbols = "parseSymbols (trim transitionInput)"
  from present(1) have ne: "?symbols \<noteq> []" by auto
  then have input: "trim transitionInput \<noteq> []" by (rule parseSymbols_nonempty)
  have len: "find (\<lambda>symb. length symb \<noteq> 1) ?symbols = None"
    using symbols by (simp add: find_None_iff)
  from findIndex_Some [OF existing] present(2)
  have "transitions sim ! i \<in> set (transitions sim)"
    and "carries (state_id (pending_from p)) symb (transitions sim ! i)"
    by (simp_all add: carries_def)
  then have "find (carries (state_id (pending_from p)) symb) (transitions sim) \<noteq> None"
    by (auto simp: find_None_iff)
  with present(1) have "firstDuplicate (transitions sim) (pending_from p) ?symbols \<noteq> None"
    by (auto simp: firstDuplicate_def find_None_iff)
  then obtain c where "firstDuplicate (transitions sim) (pending_from p) ?symbols = Some c"
    by auto
  with ne input len pending show ?thesis
    by (simp add: confirmTransition_def validateTransition_def Let_def)
qed

text \<open>
  C2, where main.js departs from it. The claim: after any sequence of calls at most one
  transition from a state carries a symbol, and adding \<open>a\<close> from \<open>q0\<close> to \<open>q1\<close> when
  \<open>q0 --a--> q2\<close> exists fails. With the method of main.js, after \<open>q0 --a--> q2\<close> and
  \<open>q0 --b--> q1\<close> have been added, adding \<open>a\<close> from \<open>q0\<close> to \<open>q1\<close> reports nothing and merges,
  and two transitions from \<open>q0\<close> carry \<open>a\<close>. The method of baseAutomaton.js keeps the
  invariant, see \<open>addOrMergeAll_keeps_deterministic\<close> below.
\<close>

theorem merge_in_main_breaks_determinism:
  "fst (confirmTransition_main ''a'' 12 (addTransition q0 q1
         (addOrMergeAll_main [(q0, q2, ''a'', 10), (q0, q1, ''b'', 11)] threeStates))) = None \<and>
   map symbol (filter (carries (state_id q0) ''a'')
     (transitions (addOrMergeAll_main
        [(q0, q2, ''a'', 10), (q0, q1, ''b'', 11), (q0, q1, ''a'', 12)] threeStates)))
     = [''a'', ''b, a''] \<and>
   \<not> deterministic (transitions (addOrMergeAll_main
        [(q0, q2, ''a'', 10), (q0, q1, ''b'', 11), (q0, q1, ''a'', 12)] threeStates))"
proof -
  have run: "transitions (addOrMergeAll_main
      [(q0, q2, ''a'', 10), (q0, q1, ''b'', 11), (q0, q1, ''a'', 12)] threeStates)
    = [arrow 10 q0 ''a'' q2, arrow 11 q0 ''b, a'' q1]"
    by (simp add: example_defs transition_defs string_defs)
  have two: "length (filter (carries (state_id q0) ''a'')
      [arrow 10 q0 ''a'' q2, arrow 11 q0 ''b, a'' q1]) = 2"
    by (simp add: example_defs string_defs)
  have "\<not> deterministic [arrow 10 q0 ''a'' q2, arrow 11 q0 ''b, a'' q1]"
  proof
    assume "deterministic [arrow 10 q0 ''a'' q2, arrow 11 q0 ''b, a'' q1]"
    then have "length (filter (carries (state_id q0) ''a'')
      [arrow 10 q0 ''a'' q2, arrow 11 q0 ''b, a'' q1]) \<le> 1"
      unfolding deterministic_def by blast
    with two show False by simp
  qed
  moreover have "fst (confirmTransition_main ''a'' 12 (addTransition q0 q1
         (addOrMergeAll_main [(q0, q2, ''a'', 10), (q0, q1, ''b'', 11)] threeStates))) = None"
    by (simp add: example_defs transition_defs string_defs)
  moreover have "map symbol (filter (carries (state_id q0) ''a'')
      [arrow 10 q0 ''a'' q2, arrow 11 q0 ''b, a'' q1]) = [''a'', ''b, a'']"
    by (simp add: example_defs string_defs)
  ultimately show ?thesis unfolding run by simp
qed


section \<open>Joining and splitting symbols\<close>

lemma split_js_nonempty: "split_js d s \<noteq> []"
  by (induction s) (auto split: list.splits)

lemma split_js_no_separator: "d \<notin> set w \<Longrightarrow> split_js d w = [w]"
  by (induction w) auto

lemma split_js_append:
  "d \<notin> set w \<Longrightarrow> split_js d (w @ d # rest) = w # split_js d rest"
  by (induction w) auto

lemma split_js_pieces: "w \<in> set (split_js d s) \<Longrightarrow> d \<notin> set w"
proof (induction s arbitrary: w)
  case Nil
  then show ?case by simp
next
  case (Cons c cs)
  then show ?case
    by (cases "split_js d cs") (auto split: if_splits)
qed

lemma split_js_join_js:
  assumes "ws \<noteq> []" and "\<forall>w \<in> set ws. CHR '','' \<notin> set w"
  shows "split_js (CHR '','') (join_js '', '' ws) = hd ws # map ((#) (CHR '' '')) (tl ws)"
  using assms
proof (induction "'', ''" ws rule: join_js.induct)
  case 1
  then show ?case by simp
next
  case (2 w)
  then show ?case by (simp add: split_js_no_separator)
next
  case (3 w v ws)
  then have IH: "split_js (CHR '','') (join_js '', '' (v # ws))
                   = v # map ((#) (CHR '' '')) ws"
    by simp
  from "3.prems" have w: "CHR '','' \<notin> set w" by simp
  have "split_js (CHR '','') (join_js '', '' (w # v # ws))
          = w # split_js (CHR '','') (CHR '' '' # join_js '', '' (v # ws))"
    using split_js_append [OF w, of "CHR '' '' # join_js '', '' (v # ws)"] by simp
  with IH show ?case by simp
qed

lemma trim_after_space: "trim (CHR '' '' # w) = trim w"
  by (simp add: trim_def isWhiteSpace_def)

lemma trim_fixed_iff:
  "trim w = w \<longleftrightarrow> w = [] \<or> (\<not> isWhiteSpace (hd w) \<and> \<not> isWhiteSpace (last w))"
proof (cases "w = []")
  case True
  then show ?thesis by (simp add: trim_def)
next
  case False
  show ?thesis
  proof
    assume fixed: "trim w = w"
    have "\<not> isWhiteSpace (hd w)"
    proof
      assume "isWhiteSpace (hd w)"
      with False have "length (dropWhile isWhiteSpace w) < length w"
        by (cases w) (auto simp: le_imp_less_Suc length_dropWhile_le)
      moreover have "length (trim w) \<le> length (dropWhile isWhiteSpace w)"
        using length_dropWhile_le [of isWhiteSpace "rev (dropWhile isWhiteSpace w)"]
        by (simp add: trim_def)
      ultimately show False using fixed by simp
    qed
    moreover have "\<not> isWhiteSpace (last w)"
    proof
      assume ws: "isWhiteSpace (last w)"
      from \<open>\<not> isWhiteSpace (hd w)\<close> False have dw: "dropWhile isWhiteSpace w = w"
        by (cases w) auto
      from False ws have "length (dropWhile isWhiteSpace (rev w)) < length (rev w)"
        by (cases "rev w") (auto simp: le_imp_less_Suc length_dropWhile_le last_rev hd_rev)
      with dw have "length (trim w) < length w" by (simp add: trim_def)
      with fixed show False by simp
    qed
    ultimately show "w = [] \<or> (\<not> isWhiteSpace (hd w) \<and> \<not> isWhiteSpace (last w))"
      by simp
  next
    assume "w = [] \<or> (\<not> isWhiteSpace (hd w) \<and> \<not> isWhiteSpace (last w))"
    with False have h: "\<not> isWhiteSpace (hd w)" and l: "\<not> isWhiteSpace (last w)" by simp_all
    from h False have "dropWhile isWhiteSpace w = w" by (cases w) auto
    moreover from l False have "dropWhile isWhiteSpace (rev w) = rev w"
      by (cases "rev w") (auto simp: hd_rev)
    ultimately show "trim w = w" by (simp add: trim_def)
  qed
qed


lemma last_dropWhile: "dropWhile P vs \<noteq> [] \<Longrightarrow> last (dropWhile P vs) = last vs"
  by (induction vs) auto

lemma trim_trim: "trim (trim w) = trim w"
proof (cases "trim w = []")
  case True
  have "trim [] = []" by (simp add: trim_def)
  with True show ?thesis by simp
next
  case False
  let ?y = "dropWhile isWhiteSpace w"
  let ?r = "dropWhile isWhiteSpace (rev ?y)"
  from False have r: "?r \<noteq> []" by (simp add: trim_def)
  have y: "?y \<noteq> []"
  proof
    assume e: "?y = []"
    have "?r = []" unfolding e by simp
    with r show False by blast
  qed
  have "last (trim w) = hd ?r" using r by (simp add: trim_def last_rev)
  with hd_dropWhile [OF r] have l: "\<not> isWhiteSpace (last (trim w))" by simp
  have "hd (trim w) = last ?r" using r by (simp add: trim_def hd_rev)
  also have "\<dots> = last (rev ?y)" using r by (rule last_dropWhile)
  also have "\<dots> = hd ?y" using y by (simp add: last_rev)
  finally have "\<not> isWhiteSpace (hd (trim w))" using hd_dropWhile [OF y] by simp
  with l show ?thesis by (simp add: trim_fixed_iff)
qed

lemma set_trim: "set (trim w) \<subseteq> set w"
proof
  fix c
  assume "c \<in> set (trim w)"
  then have "c \<in> set (dropWhile isWhiteSpace (rev (dropWhile isWhiteSpace w)))"
    by (simp add: trim_def)
  then have "c \<in> set (rev (dropWhile isWhiteSpace w))"
    by (rule set_dropWhileD)
  then have "c \<in> set (dropWhile isWhiteSpace w)"
    by simp
  then show "c \<in> set w"
    by (rule set_dropWhileD)
qed

lemma trimmed_pieces:
  "w \<in> set (map trim (split_js (CHR '','') s)) \<Longrightarrow> trim w = w \<and> CHR '','' \<notin> set w"
  using split_js_pieces set_trim by (fastforce simp: trim_trim)

lemma symbols_of_trimmed:
  "w \<in> set (symbols_of t) \<Longrightarrow> trim w = w \<and> CHR '','' \<notin> set w"
  unfolding symbols_of_def by (rule trimmed_pieces)

lemma parseSymbols_trimmed:
  "w \<in> set (parseSymbols input) \<Longrightarrow> trim w = w \<and> CHR '','' \<notin> set w"
  unfolding parseSymbols_def using trimmed_pieces [of w input] by simp

lemma symbols_of_join_js:
  assumes "ws \<noteq> []" and "\<forall>w \<in> set ws. trim w = w \<and> CHR '','' \<notin> set w"
  shows "symbols_of (t\<lparr>symbol := join_js '', '' ws\<rparr>) = ws"
proof -
  from assms obtain v vs where ws: "ws = v # vs" by (cases ws) auto
  have "map trim (map ((#) (CHR '' '')) vs) = vs"
    using assms(2) ws by (simp add: trim_after_space map_idI)
  with split_js_join_js [of ws] assms ws show ?thesis
    by (simp add: symbols_of_def)
qed


section \<open>Determinism under the validation of the DFA subclass\<close>

lemma filter_update_same:
  "P v = P (vs ! j) \<Longrightarrow> length (filter P (vs[j := v])) = length (filter P vs)"
proof (induction vs arbitrary: j)
  case Nil
  then show ?case by simp
next
  case (Cons u us)
  then show ?case by (cases j) auto
qed

lemma filter_update_none:
  "\<forall>u \<in> set vs. \<not> P u \<Longrightarrow> length (filter P (vs[j := v])) \<le> 1"
proof (induction vs arbitrary: j)
  case Nil
  then show ?case by simp
next
  case (Cons u us)
  then show ?case by (cases j) (auto simp: filter_empty_conv)
qed

lemma carries_presentation:
  "carries i symb (t\<lparr>offset := a, offsetDirection := b\<rparr>) = carries i symb t"
  by (simp add: carries_def symbols_of_def)

lemma pushTransition_deterministic:
  assumes det: "deterministic (transitions sim)"
    and free: "\<forall>symb \<in> set symbols. \<forall>t \<in> set (transitions sim).
                 \<not> carries (state_id fromState) symb t"
    and ne: "symbols \<noteq> []"
    and tr: "\<forall>w \<in> set symbols. trim w = w \<and> CHR '','' \<notin> set w"
  shows "deterministic (transitions (pushTransition fresh fromState toState symbols sim))"
proof -
  let ?ts = "transitions sim"
  let ?t = "\<lparr>transition_id = fresh, from_state = fromState, to_state = toState,
             symbol = join_js '', '' symbols, offset = None, offsetDirection = None,
             labelOffset = None, selfLoopAngle = None\<rparr>"
  have new: "carries i symb
               \<lparr>transition_id = fresh, from_state = fromState, to_state = toState,
                symbol = join_js '', '' symbols, offset = a, offsetDirection = b,
                labelOffset = c, selfLoopAngle = d\<rparr>
             = (i = state_id fromState \<and> symb \<in> set symbols)" for i symb a b c d
    using symbols_of_join_js [OF ne tr,
        of "\<lparr>transition_id = fresh, from_state = fromState, to_state = toState,
             symbol = [], offset = a, offsetDirection = b, labelOffset = c,
             selfLoopAngle = d\<rparr>"]
    by (auto simp: carries_def)
  obtain base a b c d where
    result: "transitions (pushTransition fresh fromState toState symbols sim)
               = base @ [?t\<lparr>offset := a, offsetDirection := b, labelOffset := c,
                            selfLoopAngle := d\<rparr>]"
    and base: "\<And>i symb. length (filter (carries i symb) base)
                 = length (filter (carries i symb) ?ts)"
  proof (cases "state_id fromState = state_id toState")
    case True
    show ?thesis
      by (rule that [where base = ?ts and a = None and b = None and c = None
            and d = "Some (- 1 / 2)"])
         (simp_all add: pushTransition_def Let_def True)
  next
    case False
    show ?thesis
    proof (cases "findIndex (\<lambda>r. state_id (from_state r) = state_id toState
                                \<and> state_id (to_state r) = state_id fromState) ?ts")
      case None
      show ?thesis
        by (rule that [where base = ?ts and a = None and b = None and c = "Some (1 / 2)"
              and d = None])
           (simp_all add: pushTransition_def Let_def False None)
    next
      case (Some j)
      show ?thesis
        by (rule that [where base = "?ts[j := (?ts ! j)\<lparr>offset := Some 10,
                               offsetDirection := Some (- 1)\<rparr>]"
              and a = "Some (- 10)" and b = "Some 1" and c = None and d = None])
           (simp_all add: pushTransition_def Let_def False Some filter_update_same
              carries_presentation)
    qed
  qed
  show ?thesis
    unfolding deterministic_def
  proof (intro allI)
    fix i symb
    show "length (filter (carries i symb)
            (transitions (pushTransition fresh fromState toState symbols sim))) \<le> 1"
    proof (cases "i = state_id fromState \<and> symb \<in> set symbols")
      case True
      with free have "filter (carries i symb) ?ts = []"
        by (auto simp: filter_empty_conv)
      then have "length (filter (carries i symb) base) = 0"
        using base [of i symb] by simp
      then show ?thesis unfolding result by (simp add: new)
    next
      case False
      from det have "length (filter (carries i symb) ?ts) \<le> 1"
        by (simp add: deterministic_def)
      with base [of i symb] False show ?thesis unfolding result by (auto simp: new)
    qed
  qed
qed


lemma mergeSymbols_deterministic:
  assumes det: "deterministic (transitions sim)"
    and free: "\<forall>symb \<in> set symbols. \<forall>t \<in> set (transitions sim).
                 \<not> carries (state_id fromState) symb t"
    and tr: "\<forall>w \<in> set symbols. trim w = w \<and> CHR '','' \<notin> set w"
    and i: "state_id (from_state (transitions sim ! i)) = state_id fromState"
  shows "deterministic (transitions (snd (mergeSymbols i symbols sim)))"
proof -
  let ?ts = "transitions sim"
  let ?e = "?ts ! i"
  let ?new = "filter (\<lambda>s. s \<notin> set (symbols_of ?e)) symbols"
  let ?e' = "?e\<lparr>symbol := join_js '', '' (symbols_of ?e @ ?new)\<rparr>"
  show ?thesis
  proof (cases "?new = []")
    case True
    with det show ?thesis by (simp add: mergeSymbols_def Let_def)
  next
    case False
    then have result: "transitions (snd (mergeSymbols i symbols sim)) = ?ts[i := ?e']"
      by (simp add: mergeSymbols_def Let_def)
    have "\<forall>w \<in> set (symbols_of ?e @ ?new). trim w = w \<and> CHR '','' \<notin> set w"
      using tr symbols_of_trimmed [of _ ?e] by auto
    with False have sym: "symbols_of ?e' = symbols_of ?e @ ?new"
      by (intro symbols_of_join_js) simp_all
    show ?thesis
      unfolding deterministic_def result
    proof (intro allI)
      fix j symb
      show "length (filter (carries j symb) (?ts[i := ?e'])) \<le> 1"
      proof (cases "carries j symb ?e' = carries j symb ?e")
        case True
        then have "length (filter (carries j symb) (?ts[i := ?e']))
                     = length (filter (carries j symb) ?ts)"
          by (rule filter_update_same)
        with det show ?thesis by (simp add: deterministic_def)
      next
        case False
        then have "j = state_id fromState" and "symb \<in> set symbols"
          using sym i by (auto simp: carries_def)
        with free have "\<forall>u \<in> set ?ts. \<not> carries j symb u" by simp
        then show ?thesis by (rule filter_update_none)
      qed
    qed
  qed
qed

lemma confirmTransition_keeps_deterministic:
  assumes det: "deterministic (transitions sim)"
  shows "deterministic (transitions (snd (confirmTransition transitionInput fresh
           (addTransition fromState toState sim))))"
proof -
  let ?sim = "addTransition fromState toState sim"
  let ?symbols = "parseSymbols (trim transitionInput)"
  have ts: "transitions ?sim = transitions sim"
    by (simp add: addTransition_def)
  show ?thesis
  proof (cases "fst (confirmTransition transitionInput fresh ?sim)")
    case (Some e)
    then have "snd (confirmTransition transitionInput fresh ?sim) = ?sim"
      using confirmTransition_failed [of transitionInput fresh ?sim e]
      by (cases "confirmTransition transitionInput fresh ?sim") simp
    with det ts show ?thesis by simp
  next
    case None
    then have ne: "?symbols \<noteq> []"
      by (auto simp: confirmTransition_def Let_def split: if_splits)
    from None obtain ok where ok: "validateTransition ?sim fromState toState ?symbols = Inr ok"
      by (auto simp: confirmTransition_def Let_def addTransition_def
          split: if_splits sum.splits)
    from validateTransition_ok [OF ok]
    have free: "\<forall>symb \<in> set ?symbols. \<forall>t \<in> set (transitions ?sim).
                  \<not> carries (state_id fromState) symb t"
      by simp
    have tr: "\<forall>w \<in> set ?symbols. trim w = w \<and> CHR '','' \<notin> set w"
      using parseSymbols_trimmed by blast
    from det ts have det': "deterministic (transitions ?sim)" by simp
    have result: "snd (confirmTransition transitionInput fresh ?sim)
                    = snd (createNewTransition fresh fromState toState ?symbols ?sim)"
      using None ne ok
      by (auto simp: confirmTransition_def Let_def addTransition_def
          split: if_splits prod.splits option.splits)
    show ?thesis
    proof (cases "findIndex (\<lambda>t. state_id (from_state t) = state_id fromState
                               \<and> state_id (to_state t) = state_id toState)
                    (transitions ?sim)")
      case None
      then show ?thesis
        unfolding result
        using pushTransition_deterministic [OF det' free ne tr, of fresh toState]
        by (simp add: createNewTransition_def)
    next
      case (Some i)
      from findIndex_Some [OF Some]
      have "state_id (from_state (transitions ?sim ! i)) = state_id fromState" by simp
      from mergeSymbols_deterministic [OF det' free tr this] Some show ?thesis
        unfolding result by (simp add: createNewTransition_def)
    qed
  qed
qed


lemma addOrMergeAll_keeps_deterministic:
  "deterministic (transitions sim) \<Longrightarrow> deterministic (transitions (addOrMergeAll calls sim))"
proof (induction calls arbitrary: sim)
  case Nil
  then show ?case by simp
next
  case (Cons call calls)
  obtain fromState toState transitionInput fresh
    where call: "call = (fromState, toState, transitionInput, fresh)"
    by (cases call)
  from Cons.prems
  have "deterministic (transitions (snd (confirmTransition transitionInput fresh
          (addTransition fromState toState sim))))"
    by (rule confirmTransition_keeps_deterministic)
  then show ?case unfolding call by (simp add: Cons.IH)
qed

lemma addOrMergeAll_from_start:
  "deterministic (transitions (addOrMergeAll calls newSimulator))"
  by (rule addOrMergeAll_keeps_deterministic) (simp add: deterministic_def newSimulator_def)

end
